theory Spec2Isabelle
  imports Main
begin

section \<open>Data model (src/types/index.ts)\<close>

datatype ESGCategory = ESG_E | ESG_S | ESG_G

datatype EmissionScope = Scope1 | Scope2 | Scope3

datatype NodeCategory =
    Root | Revenue | Cost | Fcf | Capex | Financial | Operational
  | Maintenance | Esg | Production | Employee | Equipment | Metric

text \<open>
  \<^verbatim>\<open>interface NodeRelationship { id: string; targetId: string; label?: string }\<close>.
  An optional field is an \<open>option\<close>: \<open>None\<close> stands for an absent or
  \<^verbatim>\<open>undefined\<close> field.
\<close>

record NodeRelationship =
  id_rel :: string
  targetId :: string
  label :: "string option"

text \<open>The icon is an opaque component handle; positions are coordinate pairs.\<close>

type_synonym Component = string
type_synonym Position = "int \<times> int"

text \<open>
  \<^verbatim>\<open>interface KPINode\<close>. The node is recursive through \<open>children\<close>, so it is a
  datatype with one selector per field. \<open>children = Some []\<close> (an empty array, truthy
  in the source) differs from \<open>children = None\<close> (no such field).
\<close>

datatype KPINode = KPINode
  (id_node: string)
  (name: string)
  (icon: "Component option")
  (unit: "string option")
  (esg: "ESGCategory option")
  (scope: "EmissionScope option")
  (category: "NodeCategory option")
  (children: "KPINode list option")
  (isDetached: "bool option")
  (relationships: "NodeRelationship list option")
  (markers: "string list option")
  (position: "Position option")

text \<open>\<^verbatim>\<open>{ ...node, children: cs }\<close>\<close>

definition with_children :: "KPINode \<Rightarrow> KPINode list option \<Rightarrow> KPINode" where
  "with_children n cs =
     KPINode (id_node n) (name n) (icon n) (unit n) (esg n) (scope n) (category n) cs
       (isDetached n) (relationships n) (markers n) (position n)"

text \<open>\<^verbatim>\<open>{ ...node, relationships: rs }\<close>\<close>

definition with_relationships :: "KPINode \<Rightarrow> NodeRelationship list option \<Rightarrow> KPINode" where
  "with_relationships n rs =
     KPINode (id_node n) (name n) (icon n) (unit n) (esg n) (scope n) (category n) (children n)
       (isDetached n) rs (markers n) (position n)"

text \<open>A leaf with only the mandatory fields, for concrete forests.\<close>

definition leaf :: "string \<Rightarrow> string \<Rightarrow> KPINode" where
  "leaf i nm = KPINode i nm None None None None None None None None None None"

lemma children_size [termination_simp]:
  "children n = Some cs \<Longrightarrow> size_list size cs < size n"
  by (cases n) simp

lemma child_size [termination_simp]:
  "Some cs = children n \<Longrightarrow> c \<in> set cs \<Longrightarrow> size c < size n"
  using children_size [of n cs] size_list_estimation' [of c cs "size c" size]
  by simp

text \<open>All nodes of a forest, in depth-first pre-order (the order of every traversal below).\<close>

fun nodesOf :: "KPINode list \<Rightarrow> KPINode list" where
  "nodesOf [] = []"
| "nodesOf (n # ns) =
     n # (case children n of None \<Rightarrow> [] | Some cs \<Rightarrow> nodesOf cs) @ nodesOf ns"

text \<open>The proper descendants of a node: every node below it.\<close>

definition descendants :: "KPINode \<Rightarrow> KPINode list" where
  "descendants n = (case children n of None \<Rightarrow> [] | Some cs \<Rightarrow> nodesOf cs)"

section \<open>String primitives\<close>

text \<open>
  Ids, names, units and labels are strings, written as their UTF-8 text with one \<open>char\<close>
  per byte. \<^verbatim>\<open>toLowerCase\<close> is modelled on the letters A to Z, which is all the
  patterns of \<^verbatim>\<open>inferCategory\<close> can observe.
\<close>

definition lower_char :: "char \<Rightarrow> char" where
  "lower_char ch =
     (case map_of (zip ''ABCDEFGHIJKLMNOPQRSTUVWXYZ'' ''abcdefghijklmnopqrstuvwxyz'') ch of
        Some l \<Rightarrow> l | None \<Rightarrow> ch)"

definition toLowerCase :: "string \<Rightarrow> string" where
  "toLowerCase str = map lower_char str"

definition startsWith :: "string \<Rightarrow> string \<Rightarrow> bool" where
  "startsWith str pre = (take (length pre) str = pre)"

fun includes_str :: "string \<Rightarrow> string \<Rightarrow> bool" where
  "includes_str [] pat = (pat = [])"
| "includes_str (ch # str) pat = (startsWith (ch # str) pat \<or> includes_str str pat)"

section \<open>Category model (src/composables/useTreeStore.ts, lines 7-44)\<close>

fun VALID_PARENT_CATEGORIES :: "NodeCategory \<Rightarrow> NodeCategory list" where
  "VALID_PARENT_CATEGORIES Root = []"
| "VALID_PARENT_CATEGORIES Revenue = [Root]"
| "VALID_PARENT_CATEGORIES Cost = [Root]"
| "VALID_PARENT_CATEGORIES Fcf = [Root]"
| "VALID_PARENT_CATEGORIES Capex = [Root]"
| "VALID_PARENT_CATEGORIES Financial = [Root]"
| "VALID_PARENT_CATEGORIES Operational = [Root]"
| "VALID_PARENT_CATEGORIES Maintenance = [Root, Operational]"
| "VALID_PARENT_CATEGORIES Esg = [Root]"
| "VALID_PARENT_CATEGORIES Production = [Revenue]"
| "VALID_PARENT_CATEGORIES Employee = [Cost]"
| "VALID_PARENT_CATEGORIES Equipment = [Cost, Production, Maintenance]"
| "VALID_PARENT_CATEGORIES Metric =
     [Revenue, Cost, Fcf, Capex, Financial, Operational, Maintenance, Esg, Production,
      Employee, Equipment, Metric]"

text \<open>
  The membership test \<^verbatim>\<open>VALID_PARENT_CATEGORIES[child].includes(parent)\<close> that
  \<^verbatim>\<open>isMoveValid\<close> applies.
\<close>

definition isLegalParent :: "NodeCategory \<Rightarrow> NodeCategory \<Rightarrow> bool" where
  "isLegalParent childCategory parentCategory =
     (parentCategory \<in> set (VALID_PARENT_CATEGORIES childCategory))"

fun categoryName :: "NodeCategory \<Rightarrow> string" where
  "categoryName Root = ''root''"
| "categoryName Revenue = ''revenue''"
| "categoryName Cost = ''cost''"
| "categoryName Fcf = ''fcf''"
| "categoryName Capex = ''capex''"
| "categoryName Financial = ''financial''"
| "categoryName Operational = ''operational''"
| "categoryName Maintenance = ''maintenance''"
| "categoryName Esg = ''esg''"
| "categoryName Production = ''production''"
| "categoryName Employee = ''employee''"
| "categoryName Equipment = ''equipment''"
| "categoryName Metric = ''metric''"

definition inferCategory :: "KPINode \<Rightarrow> NodeCategory" where
  "inferCategory node =
     (case category node of
        Some c \<Rightarrow> c
      | None \<Rightarrow>
         (let i = toLowerCase (id_node node); nm = toLowerCase (name node) in
          if i = ''ebitda-root'' \<or> includes_str i ''ebitda'' then Root
          else if startsWith i ''production-'' \<or> i = ''production-revenue''
                  \<or> includes_str nm ''production (revenue)'' then Revenue
          else if i = ''cash-cost'' \<or> startsWith i ''cash-cost'' then Cost
          else if i = ''free-cash-flow'' \<or> startsWith i ''fcf'' \<or> includes_str i ''free-cash''
            then Fcf
          else if i = ''capex'' \<or> startsWith i ''capex-'' then Capex
          else if startsWith i ''financial-'' \<or> i = ''financial-performance'' then Financial
          else if startsWith i ''operational-'' \<or> i = ''operational-excellence''
            then Operational
          else if i = ''maintenance'' \<or> startsWith i ''maintenance-'' \<or> startsWith i ''rm-''
                  \<or> startsWith i ''reliability-'' then Maintenance
          else if includes_str i ''esg'' \<or> startsWith i ''environmental-''
                  \<or> startsWith i ''social-'' \<or> startsWith i ''governance-'' then Esg
          else if startsWith i ''ob-'' \<or> startsWith i ''coal-'' \<or> startsWith i ''drill-blast''
            then Production
          else if startsWith i ''emp-'' \<or> startsWith i ''employee-'' \<or> includes_str nm ''employee''
                  \<or> includes_str nm ''labor'' then Employee
          else if startsWith i ''tyre-'' \<or> startsWith i ''fuel-'' \<or> startsWith i ''equipment-''
                  \<or> includes_str nm ''tyre'' \<or> includes_str nm ''fuel'' \<or> includes_str nm ''equipment''
            then Equipment
          else Metric))"

section \<open>Tree store (src/composables/useTreeStore.ts)\<close>

record ContextMenu =
  menu_x :: int
  menu_y :: int
  menu_nodeId :: string
  menu_nodeName :: string

text \<open>
  The module-level reactive state that the operations below read and write. Writing the
  timestamp to local storage (\<^verbatim>\<open>saveModifications\<close>) and the timer that clears
  \<open>moveError\<close> after five seconds are outside the model.
\<close>

record TreeStore =
  treeData :: "KPINode list"
  moveError :: "string option"
  hasUnsavedChanges :: bool
  linkingMode :: bool
  linkSourceId :: "string option"
  linkSourceName :: string
  contextMenu :: ContextMenu

text \<open>
  \<^verbatim>\<open>deepClone\<close> is \<^verbatim>\<open>JSON.parse(JSON.stringify(nodes))\<close>. Every forest of the store is
  a JSON value (\<^verbatim>\<open>initStore\<close> and the tab manager put it through the same round
  trip), so the clone is a structural copy; with values instead of references that is the
  forest itself.
\<close>

definition deepClone :: "KPINode list \<Rightarrow> KPINode list" where
  "deepClone nodes = nodes"

fun findNodeById :: "string \<Rightarrow> KPINode list \<Rightarrow> KPINode option" where
  "findNodeById i [] = None"
| "findNodeById i (node # nodes) =
     (if id_node node = i then Some node
      else case children node of
             None \<Rightarrow> findNodeById i nodes
           | Some cs \<Rightarrow>
               (case findNodeById i cs of
                  Some found \<Rightarrow> Some found
                | None \<Rightarrow> findNodeById i nodes))"

text \<open>
  A JavaScript reference that may be \<^verbatim>\<open>undefined\<close>, \<^verbatim>\<open>null\<close> or an object:
  \<^verbatim>\<open>findParentOfNode\<close> tests its recursive result against \<^verbatim>\<open>undefined\<close>.
\<close>

datatype 'a jsref = Undefined | Null | Obj 'a

fun findParentOfNode :: "string \<Rightarrow> KPINode list \<Rightarrow> KPINode jsref \<Rightarrow> KPINode jsref" where
  "findParentOfNode nodeId [] parent = Null"
| "findParentOfNode nodeId (node # nodes) parent =
     (if id_node node = nodeId then parent
      else case children node of
             None \<Rightarrow> findParentOfNode nodeId nodes parent
           | Some cs \<Rightarrow>
               (let found = findParentOfNode nodeId cs (Obj node) in
                if found \<noteq> Undefined then found
                else findParentOfNode nodeId nodes parent))"

record MoveResult =
  valid :: bool
  reason :: "string option"

definition isMoveValid :: "KPINode \<Rightarrow> KPINode option \<Rightarrow> MoveResult" where
  "isMoveValid sourceNode targetNode =
     (let sourceCategory = inferCategory sourceNode;
          targetCategory = (case targetNode of Some t \<Rightarrow> inferCategory t | None \<Rightarrow> Root) in
      if sourceCategory = Root
        then \<lparr>valid = False, reason = Some ''Cannot move root-level EBITDA node''\<rparr>
      else if targetNode = None then
        (if \<not> (Root \<in> set (VALID_PARENT_CATEGORIES sourceCategory))
           then \<lparr>valid = False,
                  reason = Some (name sourceNode @ '' cannot be moved to root level'')\<rparr>
         else \<lparr>valid = True, reason = None\<rparr>)
      else if \<not> (targetCategory \<in> set (VALID_PARENT_CATEGORIES sourceCategory))
        then \<lparr>valid = False,
               reason = Some (categoryName sourceCategory @ '' items cannot be moved under ''
                              @ categoryName targetCategory @ '' items.'')\<rparr>
      else \<lparr>valid = True, reason = None\<rparr>)"

fun checkDescendants :: "KPINode \<Rightarrow> string \<Rightarrow> bool"
  and checkDescendants_some :: "KPINode list \<Rightarrow> string \<Rightarrow> bool" where
  "checkDescendants node target =
     (if id_node node = target then True
      else case children node of
             Some cs \<Rightarrow> checkDescendants_some cs target
           | None \<Rightarrow> False)"
| "checkDescendants_some [] target = False"
| "checkDescendants_some (child # cs) target =
     (checkDescendants child target \<or> checkDescendants_some cs target)"

definition isDescendant :: "KPINode list \<Rightarrow> string \<Rightarrow> string \<Rightarrow> bool" where
  "isDescendant forest nodeId target =
     (case findNodeById nodeId forest of
        None \<Rightarrow> False
      | Some sourceNode \<Rightarrow> checkDescendants sourceNode target)"

text \<open>
  A target id is \<^verbatim>\<open>string | null\<close>. The guard
  \<^verbatim>\<open>targetParentId && targetParentId !== '__root__'\<close> is false for \<^verbatim>\<open>null\<close>, for the
  empty string and for the root sentinel; \<open>namedTarget\<close> gives the id in the other case.
\<close>

definition namedTarget :: "string option \<Rightarrow> string option" where
  "namedTarget targetParentId =
     (case targetParentId of
        None \<Rightarrow> None
      | Some t \<Rightarrow> if t \<noteq> [] \<and> t \<noteq> ''__root__'' then Some t else None)"

definition validateMove :: "KPINode list \<Rightarrow> string \<Rightarrow> string option \<Rightarrow> MoveResult" where
  "validateMove forest nodeId targetParentId =
     (if Some nodeId = targetParentId
        then \<lparr>valid = False, reason = Some ''Cannot move a node to itself''\<rparr>
      else case findNodeById nodeId forest of
        None \<Rightarrow> \<lparr>valid = False, reason = Some ''Source node not found''\<rparr>
      | Some sourceNode \<Rightarrow>
          (case namedTarget targetParentId of
             Some t \<Rightarrow>
               if isDescendant forest nodeId t
                 then \<lparr>valid = False,
                        reason = Some ''Cannot move a node into its own descendant''\<rparr>
               else isMoveValid sourceNode (findNodeById t forest)
           | None \<Rightarrow> isMoveValid sourceNode None))"

subsection \<open>Moving a node\<close>

text \<open>
  \<^verbatim>\<open>removeNodeFromTree\<close>. \<open>removeFilter\<close> is its closure \<^verbatim>\<open>filter\<close>, with the
  variable \<open>removedNode\<close> that the closure assigns passed in and out: it drops every
  item whose id is \<open>nodeId\<close>, records the item it dropped last, and does not descend
  into a dropped item.
\<close>

fun removeFilter :: "string \<Rightarrow> KPINode list \<Rightarrow> KPINode option \<Rightarrow> KPINode list \<times> KPINode option"
  where
  "removeFilter nodeId [] removedNode = ([], removedNode)"
| "removeFilter nodeId (item # items) removedNode =
     (if id_node item = nodeId then removeFilter nodeId items (Some item)
      else case children item of
             None \<Rightarrow>
               (let (rest, removed') = removeFilter nodeId items removedNode
                in (item # rest, removed'))
           | Some cs \<Rightarrow>
               (let (cs', removed1) = removeFilter nodeId cs removedNode;
                    (rest, removed2) = removeFilter nodeId items removed1
                in (with_children item (Some cs') # rest, removed2)))"

definition removeNodeFromTree :: "string \<Rightarrow> KPINode list \<Rightarrow> KPINode list \<times> KPINode option" where
  "removeNodeFromTree nodeId nodes = removeFilter nodeId (deepClone nodes) None"

text \<open>
  The map shared by \<^verbatim>\<open>addNodeToParent\<close> and by the \<^verbatim>\<open>addToParent\<close> closure of
  \<^verbatim>\<open>addNode\<close>: a node whose id is \<open>parentId\<close> gets the new node as its last child,
  any other node with a \<open>children\<close> field is rebuilt around its mapped children.
\<close>

fun addToParent :: "string \<Rightarrow> KPINode \<Rightarrow> KPINode list \<Rightarrow> KPINode list" where
  "addToParent parentId nodeToAdd [] = []"
| "addToParent parentId nodeToAdd (node # nodes) =
     (if id_node node = parentId
        then with_children node
               (Some ((case children node of Some cs \<Rightarrow> cs | None \<Rightarrow> []) @ [nodeToAdd]))
      else case children node of
             Some cs \<Rightarrow> with_children node (Some (addToParent parentId nodeToAdd cs))
           | None \<Rightarrow> node)
     # addToParent parentId nodeToAdd nodes"

definition addNodeToParent :: "KPINode list \<Rightarrow> string option \<Rightarrow> KPINode \<Rightarrow> KPINode list" where
  "addNodeToParent nodes parentId nodeToAdd =
     (case parentId of
        None \<Rightarrow> nodes @ [nodeToAdd]
      | Some p \<Rightarrow> if p = ''__root__'' then nodes @ [nodeToAdd]
                 else addToParent p nodeToAdd nodes)"

definition moveNode :: "string \<Rightarrow> string option \<Rightarrow> TreeStore \<Rightarrow> MoveResult \<times> TreeStore" where
  "moveNode nodeId targetParentId s =
     (let validation = validateMove (treeData s) nodeId targetParentId in
      if \<not> valid validation
        then (validation,
              s\<lparr>moveError :=
                  Some (case reason validation of
                          None \<Rightarrow> ''Invalid move''
                        | Some r \<Rightarrow> if r = [] then ''Invalid move'' else r)\<rparr>)
      else case removeNodeFromTree nodeId (treeData s) of
             (updatedNodes, None) \<Rightarrow> (\<lparr>valid = False, reason = Some ''Node not found''\<rparr>, s)
           | (updatedNodes, Some removedNode) \<Rightarrow>
               (\<lparr>valid = True, reason = None\<rparr>,
                s\<lparr>treeData := addNodeToParent updatedNodes targetParentId removedNode,
                  hasUnsavedChanges := True\<rparr>))"

subsection \<open>Adding a node\<close>

text \<open>
  \<^verbatim>\<open>generateNodeId\<close> builds an id from the clock and a random number. The ids it
  returns during one operation are a parameter \<open>gen\<close>: \<open>gen k\<close> is the result of the
  \<open>k\<close>-th call.
\<close>

record NewNodeData =
  new_name :: string
  new_unit :: "string option"
  new_esg :: "ESGCategory option"
  new_scope :: "EmissionScope option"

definition addNode :: "(nat \<Rightarrow> string) \<Rightarrow> string \<Rightarrow> NewNodeData \<Rightarrow> TreeStore \<Rightarrow> string \<times> TreeStore"
  where
  "addNode gen parentId nodeData s =
     (let newNode = KPINode (gen 0) (new_name nodeData) None (new_unit nodeData)
                      (new_esg nodeData) (new_scope nodeData) (Some Metric)
                      None None None None None
      in (id_node newNode,
          s\<lparr>treeData := addToParent parentId newNode (deepClone (treeData s)),
            hasUnsavedChanges := True\<rparr>))"

subsection \<open>Duplicating a node\<close>

text \<open>
  \<^verbatim>\<open>duplicateWithNewIds\<close>: the id is generated before the children are mapped, so the
  ids are handed out in pre-order; the second component is the number of ids used so far.
\<close>

fun duplicateWithNewIds :: "(nat \<Rightarrow> string) \<Rightarrow> nat \<Rightarrow> KPINode \<Rightarrow> KPINode \<times> nat"
  and duplicateWithNewIds_map :: "(nat \<Rightarrow> string) \<Rightarrow> nat \<Rightarrow> KPINode list \<Rightarrow> KPINode list \<times> nat"
  where
  "duplicateWithNewIds gen k node =
     (case children node of
        None \<Rightarrow>
          (KPINode (gen k) (name node @ '' (copy)'') (icon node) (unit node) (esg node)
             (scope node) (category node) None
             (isDetached node) (relationships node) (markers node) (position node), Suc k)
      | Some cs \<Rightarrow>
          (let (cs', k') = duplicateWithNewIds_map gen (Suc k) cs
           in (KPINode (gen k) (name node @ '' (copy)'') (icon node) (unit node) (esg node)
                 (scope node) (category node) (Some cs')
                 (isDetached node) (relationships node) (markers node) (position node), k')))"
| "duplicateWithNewIds_map gen k [] = ([], k)"
| "duplicateWithNewIds_map gen k (child # cs) =
     (let (child', k1) = duplicateWithNewIds gen k child;
          (cs', k2) = duplicateWithNewIds_map gen k1 cs
      in (child' # cs', k2))"

text \<open>
  The \<^verbatim>\<open>addSibling\<close> closure of \<^verbatim>\<open>duplicateNode\<close>. Each round pushes the node, then the
  duplicate if the id matches, and then, if the node has a \<open>children\<close> field, replaces the
  last element of the result by an object with eight listed fields.
\<close>

fun addSibling :: "string \<Rightarrow> KPINode \<Rightarrow> KPINode list \<Rightarrow> KPINode list" where
  "addSibling nodeId duplicatedNode [] = []"
| "addSibling nodeId duplicatedNode (node # nodes) =
     (let pushed = (if id_node node = nodeId then [node, duplicatedNode] else [node]) in
      (case children node of
         None \<Rightarrow> pushed
       | Some cs \<Rightarrow>
           (let currentNode = last pushed in
            butlast pushed
            @ [KPINode (id_node currentNode) (name currentNode) (icon currentNode)
                 (unit currentNode) (esg currentNode) (scope currentNode)
                 (category currentNode) (Some (addSibling nodeId duplicatedNode cs))
                 None None None None])))
     @ addSibling nodeId duplicatedNode nodes"

text \<open>\<^verbatim>\<open>Array.prototype.findIndex\<close>: the first index that satisfies the test, or -1.\<close>

fun findIndex :: "('a \<Rightarrow> bool) \<Rightarrow> 'a list \<Rightarrow> int" where
  "findIndex test [] = -1"
| "findIndex test (v # vs) =
     (if test v then 0 else (let j = findIndex test vs in if j < 0 then -1 else j + 1))"

text \<open>\<^verbatim>\<open>arr.splice(start, 0, item)\<close> for a start index that is not negative.\<close>

definition spliceInsert :: "'a list \<Rightarrow> int \<Rightarrow> 'a \<Rightarrow> 'a list" where
  "spliceInsert arr start item = take (nat start) arr @ [item] @ drop (nat start) arr"

definition closedContextMenu :: ContextMenu where
  "closedContextMenu = \<lparr>menu_x = 0, menu_y = 0, menu_nodeId = [], menu_nodeName = []\<rparr>"

definition duplicateNode :: "(nat \<Rightarrow> string) \<Rightarrow> string \<Rightarrow> TreeStore \<Rightarrow> TreeStore" where
  "duplicateNode gen nodeId s =
     (case findNodeById nodeId (treeData s) of
        None \<Rightarrow> s
      | Some nodeToDuplicate \<Rightarrow>
          (let duplicatedNode = fst (duplicateWithNewIds gen 0 nodeToDuplicate);
               isAtRoot = list_ex (\<lambda>n. id_node n = nodeId) (treeData s);
               newTree =
                 (if isAtRoot
                    then spliceInsert (deepClone (treeData s))
                           (findIndex (\<lambda>n. id_node n = nodeId) (treeData s) + 1) duplicatedNode
                  else addSibling nodeId duplicatedNode (deepClone (treeData s)))
           in s\<lparr>treeData := newTree, hasUnsavedChanges := True,
                contextMenu := closedContextMenu\<rparr>))"

subsection \<open>Creating a link\<close>

definition cancelLinkMode :: "TreeStore \<Rightarrow> TreeStore" where
  "cancelLinkMode s = s\<lparr>linkingMode := False, linkSourceId := None, linkSourceName := []\<rparr>"

text \<open>The \<^verbatim>\<open>updateNode\<close> closure of \<^verbatim>\<open>createLink\<close>, for the source id and the new edge.\<close>

fun updateNode :: "string \<Rightarrow> NodeRelationship \<Rightarrow> KPINode list \<Rightarrow> KPINode list" where
  "updateNode sourceId edge [] = []"
| "updateNode sourceId edge (node # nodes) =
     (if id_node node = sourceId
        then with_relationships node
               (Some ((case relationships node of Some rs \<Rightarrow> rs | None \<Rightarrow> []) @ [edge]))
      else case children node of
             Some cs \<Rightarrow> with_children node (Some (updateNode sourceId edge cs))
           | None \<Rightarrow> node)
     # updateNode sourceId edge nodes"

text \<open>
  \<^verbatim>\<open>createLink(targetId, label)\<close>. The link id is built from the clock and a random
  number and is the parameter \<open>linkId\<close>. An empty source id is falsy, like \<^verbatim>\<open>null\<close>.
\<close>

definition createLink :: "string \<Rightarrow> string \<Rightarrow> string option \<Rightarrow> TreeStore \<Rightarrow> bool \<times> TreeStore" where
  "createLink linkId target lbl s =
     (case linkSourceId s of
        None \<Rightarrow> (False, cancelLinkMode s)
      | Some sourceId \<Rightarrow>
          if sourceId = [] \<or> sourceId = target then (False, cancelLinkMode s)
          else case findNodeById sourceId (treeData s) of
            None \<Rightarrow> (False, cancelLinkMode s)
          | Some sourceNode \<Rightarrow>
              if (case relationships sourceNode of
                    Some rs \<Rightarrow> list_ex (\<lambda>r. targetId r = target) rs
                  | None \<Rightarrow> False)
                then (False, cancelLinkMode s)
              else (True,
                    cancelLinkMode
                      (s\<lparr>treeData :=
                           updateNode sourceId \<lparr>id_rel = linkId, targetId = target, label = lbl\<rparr>
                             (deepClone (treeData s)),
                         hasUnsavedChanges := True\<rparr>)))"

subsection \<open>Initial state\<close>

text \<open>The module-level initial values, and \<^verbatim>\<open>initStore\<close> on the fields modelled here.\<close>

definition moduleState :: TreeStore where
  "moduleState =
     \<lparr>treeData = [], moveError = None, hasUnsavedChanges = False, linkingMode = False,
      linkSourceId = None, linkSourceName = [],
      contextMenu = \<lparr>menu_x = 0, menu_y = 0, menu_nodeId = [], menu_nodeName = []\<rparr>\<rparr>"

definition initStore :: "KPINode list \<Rightarrow> TreeStore \<Rightarrow> TreeStore" where
  "initStore initialData s = s\<lparr>treeData := deepClone initialData, hasUnsavedChanges := False\<rparr>"

text \<open>\<^verbatim>\<open>startLinkMode(sourceId, sourceName)\<close>\<close>

definition startLinkMode :: "string \<Rightarrow> string \<Rightarrow> TreeStore \<Rightarrow> TreeStore" where
  "startLinkMode sourceId sourceName s =
     s\<lparr>linkingMode := True, linkSourceId := Some sourceId, linkSourceName := sourceName,
       contextMenu := closedContextMenu\<rparr>"

section \<open>XMind codec (src/utils/fileExport.ts)\<close>

subsection \<open>XMind types\<close>

text \<open>
  An \<^verbatim>\<open>attributedTitle\<close> is an array of \<^verbatim>\<open>{ text }\<close> objects and \<open>markers\<close> an array of
  \<^verbatim>\<open>{ markerId }\<close> objects; both are lists of their single field. The \<open>children\<close>
  object of a topic is a pair of its optional \<open>attached\<close> and \<open>detached\<close> arrays.
\<close>

record XMindRelationship =
  id_xrel :: string
  end1Id :: string
  end2Id :: string
  title_xrel :: "string option"
  attributedTitle_xrel :: "string list option"

datatype XMindTopic = XMindTopic
  (id_topic: string)
  (class_topic: "string option")
  (title_topic: string)
  (attributedTitle: "string list option")
  (position_topic: "Position option")
  (structureClass: "string option")
  (markers_topic: "string list option")
  (children_topic: "(XMindTopic list option \<times> XMindTopic list option) option")
  (summary: "XMindTopic list option")

text \<open>
  A sheet as it is read back from \<^verbatim>\<open>content.json\<close>: the import tests whether
  \<open>rootTopic\<close> is there.
\<close>

record XMindSheet =
  id_sheet :: string
  class_sheet :: "string option"
  title_sheet :: string
  rootTopic :: "XMindTopic option"
  relationships_sheet :: "XMindRelationship list option"

text \<open>The members of the zip container.\<close>

datatype ZipMember =
    ContentJson "XMindSheet list"
  | MetadataJson string string
  | ManifestJson "string list"
  | ContentXml

subsection \<open>Export\<close>

text \<open>Truthiness of an optional boolean.\<close>

definition truthy :: "bool option \<Rightarrow> bool" where
  "truthy b = (b = Some True)"

definition topicTitle :: "KPINode \<Rightarrow> string" where
  "topicTitle node =
     name node @ (case unit node of
                    None \<Rightarrow> []
                  | Some u \<Rightarrow> if u \<noteq> [] then '' ('' @ u @ '')'' else [])"

fun kpiNodeToXMindTopic :: "KPINode \<Rightarrow> XMindTopic" where
  "kpiNodeToXMindTopic node =
     (let title = topicTitle node;
          attachedChildren =
            (case children node of
               Some cs \<Rightarrow> filter (\<lambda>c. \<not> truthy (isDetached c)) cs | None \<Rightarrow> []);
          detachedChildren =
            (case children node of
               Some cs \<Rightarrow> filter (\<lambda>c. truthy (isDetached c)) cs | None \<Rightarrow> [])
      in XMindTopic (id_node node)
           (Some (if truthy (isDetached node) then ''importantTopic'' else ''topic''))
           title
           (Some [title])
           (position node)
           None
           (case markers node of
              None \<Rightarrow> None
            | Some ms \<Rightarrow> if ms \<noteq> [] then Some ms else None)
           (if attachedChildren \<noteq> [] \<or> detachedChildren \<noteq> []
              then Some (if attachedChildren \<noteq> []
                           then Some (map kpiNodeToXMindTopic attachedChildren) else None,
                         if detachedChildren \<noteq> []
                           then Some (map kpiNodeToXMindTopic detachedChildren) else None)
            else None)
           None)"

declare kpiNodeToXMindTopic.simps [simp del]

text \<open>
  The nodes that the export reaches through attached children only: the attached nodes of
  a list, each followed by the attached nodes below it.
\<close>

fun attachedNodes :: "KPINode list \<Rightarrow> KPINode list" where
  "attachedNodes [] = []"
| "attachedNodes (n # ns) =
     (if truthy (isDetached n) then []
      else n # (case children n of None \<Rightarrow> [] | Some cs \<Rightarrow> attachedNodes cs))
     @ attachedNodes ns"

text \<open>The records that \<^verbatim>\<open>collectRelationships\<close> pushes for one node.\<close>

definition relationshipRecords :: "KPINode \<Rightarrow> XMindRelationship list" where
  "relationshipRecords node =
     (case relationships node of
        None \<Rightarrow> []
      | Some rs \<Rightarrow>
          map (\<lambda>rel. \<lparr>id_xrel = id_rel rel, end1Id = id_node node, end2Id = targetId rel,
                      title_xrel = label rel,
                      attributedTitle_xrel =
                        (case label rel of
                           None \<Rightarrow> None
                         | Some l \<Rightarrow> if l \<noteq> [] then Some [l] else None)\<rparr>) rs)"

fun traverse :: "KPINode \<Rightarrow> XMindRelationship list"
  and traverse_forEach :: "KPINode list \<Rightarrow> XMindRelationship list" where
  "traverse node =
     relationshipRecords node
     @ (case children node of Some cs \<Rightarrow> traverse_forEach cs | None \<Rightarrow> [])"
| "traverse_forEach [] = []"
| "traverse_forEach (node # nodes) = traverse node @ traverse_forEach nodes"

definition collectRelationships :: "KPINode list \<Rightarrow> XMindRelationship list" where
  "collectRelationships nodes = traverse_forEach nodes"

text \<open>Decimal digits of a number, for the sheet titles.\<close>

fun digits :: "nat \<Rightarrow> string" where
  "digits n = (if n < 10 then [] else digits (n div 10)) @ [''0123456789'' ! (n mod 10)]"

declare digits.simps [simp del]

text \<open>
  \<^verbatim>\<open>if (!children) children = {}; children.detached = ds\<close> on the root topic of the first
  sheet.
\<close>

definition setDetached :: "XMindTopic \<Rightarrow> XMindTopic list \<Rightarrow> XMindTopic" where
  "setDetached topic ds =
     XMindTopic (id_topic topic) (class_topic topic) (title_topic topic) (attributedTitle topic)
       (position_topic topic) (structureClass topic) (markers_topic topic)
       (Some (case children_topic topic of
                None \<Rightarrow> (None, Some ds)
              | Some (att, det) \<Rightarrow> (att, Some ds)))
       (summary topic)"

text \<open>
  The body of the \<^verbatim>\<open>rootNodes.map\<close> callback. \<^verbatim>\<open>generateXMindId\<close> is random; \<open>xgen k\<close>
  is the result of its \<open>k\<close>-th call, and the callback for index \<open>k\<close> makes the
  \<open>k\<close>-th call.
\<close>

definition exportSheet ::
  "(nat \<Rightarrow> string) \<Rightarrow> KPINode list \<Rightarrow> KPINode list \<Rightarrow> nat \<Rightarrow> KPINode \<Rightarrow> XMindSheet" where
  "exportSheet xgen data detachedNodes index rootNode =
     (let topic = kpiNodeToXMindTopic rootNode;
          topic' = (if index = 0 \<and> detachedNodes \<noteq> []
                    then setDetached topic (map kpiNodeToXMindTopic detachedNodes)
                    else topic);
          rels = collectRelationships (if index = 0 then data else [rootNode])
      in \<lparr>id_sheet = xgen index, class_sheet = Some ''sheet'',
          title_sheet = ''Sheet '' @ digits (index + 1),
          rootTopic = Some topic',
          relationships_sheet = (if rels \<noteq> [] then Some rels else None)\<rparr>)"

definition exportSheets :: "(nat \<Rightarrow> string) \<Rightarrow> KPINode list \<Rightarrow> XMindSheet list" where
  "exportSheets xgen data =
     (let rootNodes = filter (\<lambda>n. \<not> truthy (isDetached n)) data;
          detachedNodes = filter (\<lambda>n. truthy (isDetached n)) data;
          sheets = map (\<lambda>(index, rootNode). exportSheet xgen data detachedNodes index rootNode)
                     (enumerate 0 rootNodes)
      in if rootNodes = [] \<and> detachedNodes \<noteq> []
           then sheets
                @ [\<lparr>id_sheet = xgen 0, class_sheet = Some ''sheet'', title_sheet = ''Sheet 1'',
                     rootTopic =
                       Some (XMindTopic (xgen 1) (Some ''topic'') ''Root'' (Some [''Root'']) None None
                               None
                               (Some (None, Some (map kpiNodeToXMindTopic detachedNodes)))
                               None),
                     relationships_sheet = None\<rparr>]
         else sheets)"

text \<open>
  \<^verbatim>\<open>exportToXMind\<close> writes three members into the zip container and hands the archive
  to the browser; the model returns the members.
\<close>

definition exportToXMind :: "(nat \<Rightarrow> string) \<Rightarrow> KPINode list \<Rightarrow> ZipMember list" where
  "exportToXMind xgen data =
     [ContentJson (exportSheets xgen data),
      MetadataJson ''KPI Tree Dashboard'' ''1.0.0'',
      ManifestJson [''content.json'', ''metadata.json'']]"

text \<open>The relationship records of a sheet; a sheet without the field has none.\<close>

definition sheetRecords :: "XMindSheet \<Rightarrow> XMindRelationship list" where
  "sheetRecords sheet = (case relationships_sheet sheet of None \<Rightarrow> [] | Some rs \<Rightarrow> rs)"

subsection \<open>Import: splitting the title\<close>

text \<open>
  A string is its UTF-8 text, one \<open>char\<close> per byte, so a character outside ASCII is a
  sequence of two or three bytes. \<open>whiteSpace\<close> lists the characters that \<^verbatim>\<open>\\s\<close> matches
  and that \<^verbatim>\<open>trim\<close> removes: U+0009 to U+000D, U+0020, U+00A0, U+1680, U+2000 to
  U+200A, U+2028, U+2029, U+202F, U+205F, U+3000 and U+FEFF. \<open>lineTerminators\<close> lists
  the characters that the dot of a regular expression does not match: U+000A, U+000D,
  U+2028 and U+2029.
\<close>

definition whiteSpace :: "string list" where
  "whiteSpace =
     [[CHR 0x09], [CHR 0x0A], [CHR 0x0B], [CHR 0x0C], [CHR 0x0D], [CHR 0x20],
      [CHR 0xC2, CHR 0xA0], [CHR 0xE1, CHR 0x9A, CHR 0x80],
      [CHR 0xE2, CHR 0x80, CHR 0x80], [CHR 0xE2, CHR 0x80, CHR 0x81],
      [CHR 0xE2, CHR 0x80, CHR 0x82], [CHR 0xE2, CHR 0x80, CHR 0x83],
      [CHR 0xE2, CHR 0x80, CHR 0x84], [CHR 0xE2, CHR 0x80, CHR 0x85],
      [CHR 0xE2, CHR 0x80, CHR 0x86], [CHR 0xE2, CHR 0x80, CHR 0x87],
      [CHR 0xE2, CHR 0x80, CHR 0x88], [CHR 0xE2, CHR 0x80, CHR 0x89],
      [CHR 0xE2, CHR 0x80, CHR 0x8A], [CHR 0xE2, CHR 0x80, CHR 0xA8],
      [CHR 0xE2, CHR 0x80, CHR 0xA9], [CHR 0xE2, CHR 0x80, CHR 0xAF],
      [CHR 0xE2, CHR 0x81, CHR 0x9F], [CHR 0xE3, CHR 0x80, CHR 0x80],
      [CHR 0xEF, CHR 0xBB, CHR 0xBF]]"

definition lineTerminators :: "string list" where
  "lineTerminators =
     [[CHR 0x0A], [CHR 0x0D], [CHR 0xE2, CHR 0x80, CHR 0xA8], [CHR 0xE2, CHR 0x80, CHR 0xA9]]"

text \<open>
  \<open>stripOne cs str\<close> removes from the front of \<open>str\<close> the first character of the list
  \<open>cs\<close> that \<open>str\<close> starts with; \<open>stripAll\<close> repeats it as long as there is one.
\<close>

fun stripOne :: "string list \<Rightarrow> string \<Rightarrow> string option" where
  "stripOne [] str = None"
| "stripOne (c # cs) str =
     (if c \<noteq> [] \<and> startsWith str c then Some (drop (length c) str) else stripOne cs str)"

lemma stripOne_shorter: "stripOne cs str = Some rest \<Longrightarrow> length rest < length str"
proof (induction cs)
  case Nil
  then show ?case by simp
next
  case (Cons c cs)
  show ?case
  proof (cases "c \<noteq> [] \<and> startsWith str c")
    case True
    then have "length c \<le> length str"
      by (metis length_take min.cobounded1 startsWith_def)
    with True Cons.prems show ?thesis by (cases c) auto
  next
    case False
    with Cons show ?thesis by auto
  qed
qed

function stripAll :: "string list \<Rightarrow> string \<Rightarrow> string" where
  "stripAll cs str = (case stripOne cs str of None \<Rightarrow> str | Some rest \<Rightarrow> stripAll cs rest)"
  by pat_completeness auto
termination
  by (relation "measure (\<lambda>(cs, str). length str)") (auto dest: stripOne_shorter)

declare stripAll.simps [simp del]

text \<open>Whether \<open>str\<close> starts with one of the characters of the list.\<close>

definition startsWithOneOf :: "string list \<Rightarrow> string \<Rightarrow> bool" where
  "startsWithOneOf cs str = list_ex (\<lambda>c. startsWith str c) cs"

text \<open>\<^verbatim>\<open>String.prototype.trim\<close>: white space is removed at both ends.\<close>

definition trim :: "string \<Rightarrow> string" where
  "trim str = rev (stripAll (map rev whiteSpace) (rev (stripAll whiteSpace str)))"

text \<open>
  The tail \<^verbatim>\<open>\\s*\\(([^)]+)\\)\\s*$\<close> of the pattern, matched at the start of \<open>rest\<close>; the
  result is the second group. Backtracking cannot change the outcome: the greedy
  \<^verbatim>\<open>\\s*\<close> must stop in front of a parenthesis, which is not white space, and the greedy
  \<^verbatim>\<open>[^)]+\<close> must stop in front of the first closing parenthesis.
\<close>

definition matchSuffix :: "string \<Rightarrow> string option" where
  "matchSuffix rest =
     (case stripAll whiteSpace rest of
        [] \<Rightarrow> None
      | ch # afterOpen \<Rightarrow>
          if ch \<noteq> CHR ''('' then None
          else let group2 = takeWhile (\<lambda>c. c \<noteq> CHR '')'') afterOpen in
               if group2 = [] then None
               else case dropWhile (\<lambda>c. c \<noteq> CHR '')'') afterOpen of
                      [] \<Rightarrow> None
                    | closing # trailing \<Rightarrow>
                        if stripAll whiteSpace trailing = [] then Some group2 else None)"

text \<open>
  The lazy first group \<^verbatim>\<open>(.+?)\<close>: it has taken \<open>group1\<close> and grows until the tail
  matches, unless a line terminator comes next. It grows by one byte at a time: the tail
  cannot match in the middle of a character, because neither white space nor the
  parenthesis starts with a continuation byte.
\<close>

fun matchLazy :: "string \<Rightarrow> string \<Rightarrow> (string \<times> string) option" where
  "matchLazy group1 rest =
     (case matchSuffix rest of
        Some group2 \<Rightarrow> Some (group1, group2)
      | None \<Rightarrow>
          (case rest of
             [] \<Rightarrow> None
           | ch # rest' \<Rightarrow>
               if startsWithOneOf lineTerminators rest then None
               else matchLazy (group1 @ [ch]) rest'))"

declare matchLazy.simps [simp del]

text \<open>\<^verbatim>\<open>title.match(/^(.+?)\\s*\\(([^)]+)\\)\\s*$/)\<close>, giving the two groups.\<close>

definition unitMatch :: "string \<Rightarrow> (string \<times> string) option" where
  "unitMatch title =
     (case title of
        [] \<Rightarrow> None
      | ch # rest \<Rightarrow>
          if startsWithOneOf lineTerminators title then None else matchLazy [ch] rest)"

text \<open>The name and the unit that \<^verbatim>\<open>xmindTopicToKPINode\<close> reads from a title.\<close>

definition splitTitle :: "string \<Rightarrow> string \<times> string option" where
  "splitTitle title =
     (case unitMatch title of
        Some (group1, group2) \<Rightarrow> (trim group1, Some (trim group2))
      | None \<Rightarrow> (title, None))"

subsection \<open>Import: topics to nodes\<close>

text \<open>\<^verbatim>\<open>topic.children?.attached\<close> and \<^verbatim>\<open>topic.children?.detached\<close>\<close>

definition attachedOf :: "XMindTopic \<Rightarrow> XMindTopic list option" where
  "attachedOf topic = (case children_topic topic of None \<Rightarrow> None | Some grp \<Rightarrow> fst grp)"

definition detachedOf :: "XMindTopic \<Rightarrow> XMindTopic list option" where
  "detachedOf topic = (case children_topic topic of None \<Rightarrow> None | Some grp \<Rightarrow> snd grp)"

lemma attached_size [termination_simp]:
  "attachedOf t = Some att \<Longrightarrow> size_list size att < size t"
  by (cases t) (auto simp: attachedOf_def split: option.splits)

lemma summary_size [termination_simp]:
  "summary t = Some ss \<Longrightarrow> size_list size ss < size t"
  by (cases t) simp

text \<open>\<^verbatim>\<open>summaryNode.markers = [...(summaryNode.markers || []), 'summary']\<close>\<close>

definition addSummaryMarker :: "KPINode \<Rightarrow> KPINode" where
  "addSummaryMarker n =
     KPINode (id_node n) (name n) (icon n) (unit n) (esg n) (scope n) (category n) (children n)
       (isDetached n) (relationships n)
       (Some ((case markers n of Some ms \<Rightarrow> ms | None \<Rightarrow> []) @ [''summary'']))
       (position n)"

text \<open>
  \<^verbatim>\<open>xmindTopicToKPINode(topic, isDetached)\<close>; the second function is the loop over a
  group of topics, each converted with \<^verbatim>\<open>isDetached = false\<close>.
\<close>

fun xmindTopicToKPINode :: "XMindTopic \<Rightarrow> bool \<Rightarrow> KPINode"
  and xmindTopicToKPINode_each :: "XMindTopic list \<Rightarrow> KPINode list" where
  "xmindTopicToKPINode topic isDet =
     (let title0 = (if title_topic topic \<noteq> [] then title_topic topic else ''Untitled'');
          title = (case attributedTitle topic of
                     None \<Rightarrow> title0
                   | Some ts \<Rightarrow> if ts \<noteq> [] then concat ts else title0);
          attachedNodes =
            (case attachedOf topic of
               Some att \<Rightarrow> xmindTopicToKPINode_each att
             | None \<Rightarrow> []);
          summaryNodes =
            (case summary topic of
               Some ss \<Rightarrow> map addSummaryMarker (xmindTopicToKPINode_each ss)
             | None \<Rightarrow> []);
          cs = attachedNodes @ summaryNodes
      in KPINode (id_topic topic) (fst (splitTitle title)) None (snd (splitTitle title))
           None None None
           (if cs \<noteq> [] then Some cs else None)
           (Some isDet)
           None
           (case markers_topic topic of
              None \<Rightarrow> None
            | Some ms \<Rightarrow> if ms \<noteq> [] then Some ms else None)
           (position_topic topic))"
| "xmindTopicToKPINode_each [] = []"
| "xmindTopicToKPINode_each (topic # topics) =
     xmindTopicToKPINode topic False # xmindTopicToKPINode_each topics"

declare xmindTopicToKPINode.simps [simp del]

subsection \<open>Import: relationships\<close>

text \<open>
  \<^verbatim>\<open>processRelationships\<close> mutates node objects that it reaches through a map from ids
  to objects. An object is identified here by its position in the pre-order of the
  forest; the \<open>relationships\<close> fields of all objects form a heap indexed by that position.

  \<^verbatim>\<open>buildNodeIdMap\<close> visits the nodes in pre-order and each \<^verbatim>\<open>map.set\<close> overrides an
  earlier entry for the same id.
\<close>

definition buildNodeIdMap :: "KPINode list \<Rightarrow> (string \<rightharpoonup> nat)" where
  "buildNodeIdMap nodes =
     fold (\<lambda>(k, node) m. m(id_node node \<mapsto> k)) (enumerate 0 (nodesOf nodes)) Map.empty"

type_synonym relHeap = "NodeRelationship list option list"

definition arrayOf :: "'a list option \<Rightarrow> 'a list" where
  "arrayOf field = (case field of None \<Rightarrow> [] | Some vs \<Rightarrow> vs)"

text \<open>The arrow U+2190 in front of a reverse label.\<close>

definition backArrow :: string where
  "backArrow = [CHR 0xE2, CHR 0x86, CHR 0x90]"

text \<open>
  \<^verbatim>\<open>if (!node.relationships) node.relationships = []\<close> and
  \<^verbatim>\<open>node.relationships.push(edge)\<close> on the object at position \<open>k\<close>.
\<close>

definition ensureArray :: "nat \<Rightarrow> relHeap \<Rightarrow> relHeap" where
  "ensureArray k heap = heap[k := Some (arrayOf (heap ! k))]"

definition pushEdge :: "nat \<Rightarrow> NodeRelationship \<Rightarrow> relHeap \<Rightarrow> relHeap" where
  "pushEdge k edge heap = heap[k := Some (arrayOf (heap ! k) @ [edge])]"

text \<open>
  The label of a record (\<^verbatim>\<open>attributedTitle\<close> wins over \<^verbatim>\<open>title\<close>), the forward edge
  \<open>nodeRel\<close> that is pushed on the source node, and the reverse edge that is pushed on
  the target node.
\<close>

definition relationshipLabel :: "XMindRelationship \<Rightarrow> string option" where
  "relationshipLabel rel =
     (case attributedTitle_xrel rel of
        None \<Rightarrow> title_xrel rel
      | Some ts \<Rightarrow> if ts \<noteq> [] then Some (concat ts) else title_xrel rel)"

definition forwardEdge :: "XMindRelationship \<Rightarrow> NodeRelationship" where
  "forwardEdge rel =
     \<lparr>id_rel = id_xrel rel, targetId = end2Id rel, label = relationshipLabel rel\<rparr>"

definition reverseEdge :: "XMindRelationship \<Rightarrow> NodeRelationship" where
  "reverseEdge rel =
     \<lparr>id_rel = id_xrel rel @ ''-reverse'', targetId = end1Id rel,
      label = (case relationshipLabel rel of
                 None \<Rightarrow> None
               | Some l \<Rightarrow> if l \<noteq> [] then Some (backArrow @ '' '' @ l) else None)\<rparr>"

text \<open>The body of the loop of \<^verbatim>\<open>processRelationships\<close> for one record.\<close>

definition processRelationship ::
  "(string \<rightharpoonup> nat) \<Rightarrow> relHeap \<Rightarrow> XMindRelationship \<Rightarrow> relHeap" where
  "processRelationship nodeMap heap rel =
     (case nodeMap (end1Id rel) of
        None \<Rightarrow> heap
      | Some sourceNode \<Rightarrow>
         (case nodeMap (end2Id rel) of
            None \<Rightarrow> heap
          | Some targetNode \<Rightarrow>
             (let heap1 = pushEdge sourceNode (forwardEdge rel) (ensureArray sourceNode heap);
                  heap2 = ensureArray targetNode heap1;
                  hasReverse = list_ex (\<lambda>r. targetId r = end1Id rel) (arrayOf (heap2 ! targetNode))
              in if \<not> hasReverse then pushEdge targetNode (reverseEdge rel) heap2
                 else heap2)))"

text \<open>Writing the heap back: the forest with the \<open>relationships\<close> fields of the heap.\<close>

fun storeRelationships :: "relHeap \<Rightarrow> KPINode list \<Rightarrow> KPINode list" where
  "storeRelationships heap [] = []"
| "storeRelationships heap (node # nodes) =
     KPINode (id_node node) (name node) (icon node) (unit node) (esg node) (scope node)
       (category node)
       (case children node of
          None \<Rightarrow> None
        | Some cs \<Rightarrow> Some (storeRelationships (tl heap) cs))
       (isDetached node) (hd heap) (markers node) (position node)
     # storeRelationships (drop (Suc (length (descendants node))) heap) nodes"

definition processRelationships :: "KPINode list \<Rightarrow> XMindRelationship list \<Rightarrow> KPINode list" where
  "processRelationships nodes rels =
     storeRelationships
       (foldl (processRelationship (buildNodeIdMap nodes)) (map relationships (nodesOf nodes)) rels)
       nodes"

text \<open>The node object that the id map of a forest holds for an id, if any.\<close>

definition mappedNode :: "KPINode list \<Rightarrow> string \<Rightarrow> KPINode option" where
  "mappedNode forest i = map_option (\<lambda>k. nodesOf forest ! k) (buildNodeIdMap forest i)"

subsection \<open>Import: the container\<close>

datatype ImportError = LegacyFormat | InvalidFile

text \<open>The loop over the sheets: the nodes and the relationship records of one sheet.\<close>

definition sheetNodes :: "XMindSheet \<Rightarrow> KPINode list" where
  "sheetNodes sheet =
     (case rootTopic sheet of
        None \<Rightarrow> []
      | Some topic \<Rightarrow>
          xmindTopicToKPINode topic False
          # (case detachedOf topic of
               None \<Rightarrow> []
             | Some ds \<Rightarrow> map (\<lambda>d. xmindTopicToKPINode d True) ds))"

definition importSheets :: "XMindSheet list \<Rightarrow> KPINode list" where
  "importSheets sheets =
     (let allNodes = concat (map sheetNodes sheets);
          allRelationships = concat (map sheetRecords sheets)
      in if allRelationships \<noteq> [] then processRelationships allNodes allRelationships
         else allNodes)"

fun contentJson :: "ZipMember list \<Rightarrow> XMindSheet list option" where
  "contentJson [] = None"
| "contentJson (ContentJson sheets # members) = Some sheets"
| "contentJson (member # members) = contentJson members"

definition importFromXMind :: "ZipMember list \<Rightarrow> ImportError + KPINode list" where
  "importFromXMind contents =
     (case contentJson contents of
        Some sheets \<Rightarrow> Inr (importSheets sheets)
      | None \<Rightarrow> if ContentXml \<in> set contents then Inl LegacyFormat else Inl InvalidFile)"

section \<open>Verified properties\<close>

subsection \<open>Lookup and descendant test\<close>

lemma checkDescendants_iff:
  "checkDescendants n t \<longleftrightarrow> t \<in> id_node ` set (nodesOf [n])"
  "checkDescendants_some cs t \<longleftrightarrow> t \<in> id_node ` set (nodesOf cs)"
proof (induction n t and cs t rule: checkDescendants_checkDescendants_some.induct)
  case (1 node target)
  then show ?case by (cases "children node") auto
next
  case (2 target)
  then show ?case by simp
next
  case (3 child cs target)
  then show ?case by (cases "children child") auto
qed

lemma findNodeById_None_iff:
  "findNodeById i forest = None \<longleftrightarrow> i \<notin> id_node ` set (nodesOf forest)"
  by (induction i forest rule: findNodeById.induct) (auto split: option.splits)

lemma findNodeById_unique:
  "distinct (map id_node (nodesOf forest)) \<Longrightarrow> n \<in> set (nodesOf forest)
     \<Longrightarrow> findNodeById (id_node n) forest = Some n"
proof (induction "id_node n" forest rule: findNodeById.induct)
  case 1
  then show ?case by simp
next
  case (2 node nodes)
  let ?below = "case children node of None \<Rightarrow> [] | Some cs \<Rightarrow> nodesOf cs"
  from "2.prems"(1) have d: "id_node node \<notin> id_node ` set ?below"
    "id_node node \<notin> id_node ` set (nodesOf nodes)"
    "distinct (map id_node ?below)" "distinct (map id_node (nodesOf nodes))"
    "id_node ` set ?below \<inter> id_node ` set (nodesOf nodes) = {}"
    by auto
  show ?case
  proof (cases "id_node node = id_node n")
    case True
    with d(1,2) "2.prems"(2) have "n = node" by auto
    then show ?thesis by simp
  next
    case False
    with "2.prems"(2) consider "n \<in> set ?below" | "n \<in> set (nodesOf nodes)" by auto
    then show ?thesis
    proof cases
      case 1
      then obtain cs where cs: "children node = Some cs" "n \<in> set (nodesOf cs)"
        by (cases "children node") auto
      with d(3) have "distinct (map id_node (nodesOf cs))" by simp
      from "2.hyps"(2) [OF False cs(1) this cs(2)] False cs(1) show ?thesis by simp
    next
      case 2
      with d(5) have "id_node n \<notin> id_node ` set ?below" by auto
      then have "\<And>cs. children node = Some cs \<Longrightarrow> findNodeById (id_node n) cs = None"
        by (simp add: findNodeById_None_iff)
      with False 2 d(4) "2.hyps"(1,3) show ?thesis
        by (cases "children node") simp_all
    qed
  qed
qed

subsection \<open>Category table\<close>

text \<open>
  Claim C9, as stated, asks that \<open>metric\<close> be a legal child of every category of the
  closed set, \<open>root\<close> included. The table lists twelve parents for \<open>metric\<close> and
  \<open>root\<close> is not among them.
\<close>

theorem metric_under_root_illegal:
  "\<not> isLegalParent Metric Root"
  by (simp add: isLegalParent_def)

text \<open>
  Claim C9, amended: for every category other than \<open>root\<close>, \<open>metric\<close> itself included,
  \<open>isLegalParent metric\<close> holds, and \<open>isMoveValid\<close> accepts a source node of category
  \<open>metric\<close> under any target node of such a category.
\<close>

theorem metric_legal_under_non_root:
  assumes "parentCategory \<noteq> Root"
  shows "isLegalParent Metric parentCategory
         \<and> (\<forall>src tgt. inferCategory src = Metric \<and> inferCategory tgt = parentCategory
                \<longrightarrow> valid (isMoveValid src (Some tgt)))"
proof -
  have legal: "isLegalParent Metric parentCategory"
    using assms by (cases parentCategory) (simp_all add: isLegalParent_def)
  then have "parentCategory \<in> set (VALID_PARENT_CATEGORIES Metric)"
    by (simp only: isLegalParent_def)
  then have "\<forall>src tgt. inferCategory src = Metric \<and> inferCategory tgt = parentCategory
                \<longrightarrow> valid (isMoveValid src (Some tgt))"
    by (simp add: isMoveValid_def)
  with legal show ?thesis by blast
qed

theorem metric_legal_under_non_root_witness:
  "Metric \<noteq> Root \<and> isLegalParent Metric Metric
   \<and> inferCategory (leaf ''n1'' ''Throughput'') = Metric
   \<and> inferCategory (leaf ''n2'' ''Yield'') = Metric
   \<and> valid (isMoveValid (leaf ''n1'' ''Throughput'') (Some (leaf ''n2'' ''Yield'')))"
proof -
  have ne: "Metric \<noteq> Root" by simp
  have c1: "inferCategory (leaf ''n1'' ''Throughput'') = Metric"
    by (simp add: inferCategory_def leaf_def toLowerCase_def lower_char_def startsWith_def)
  have c2: "inferCategory (leaf ''n2'' ''Yield'') = Metric"
    by (simp add: inferCategory_def leaf_def toLowerCase_def lower_char_def startsWith_def)
  from metric_legal_under_non_root [OF ne] c1 c2 show ?thesis by blast
qed

subsection \<open>Cycle prevention in \<open>validateMove\<close>\<close>

definition revenueBranch :: KPINode where
  "revenueBranch = KPINode ''a'' ''A'' None None None None (Some Revenue)
      (Some [leaf ''__root__'' ''D'']) None None None None"

text \<open>
  Claim C4, as stated, fails for a descendant whose id is the root sentinel (or the empty
  string): the guard of \<open>validateMove\<close> skips the descendant test for such a target id
  and treats the call as a move to the top level, which the category table allows for a
  \<open>revenue\<close> node.
\<close>

theorem validateMove_accepts_sentinel_descendant:
  "findNodeById ''a'' [revenueBranch] = Some revenueBranch
   \<and> leaf ''__root__'' ''D'' \<in> set (descendants revenueBranch)
   \<and> valid (validateMove [revenueBranch] ''a'' (Some (id_node (leaf ''__root__'' ''D''))))"
  by (simp add: revenueBranch_def leaf_def descendants_def validateMove_def namedTarget_def
      isMoveValid_def inferCategory_def)

text \<open>
  Claim C4, amended: for every forest, every node \<open>n\<close> that the id \<open>nodeId\<close> resolves
  to, and every descendant \<open>d\<close> of \<open>n\<close> whose id is neither empty nor the root sentinel,
  \<open>validateMove nodeId (id d)\<close> is a rejection. When the ids of the forest are unique,
  every node of the forest is the node that its id resolves to
  (\<open>findNodeById_unique\<close>).
\<close>

theorem validateMove_rejects_descendant:
  assumes "findNodeById nodeId forest = Some n"
    and "d \<in> set (descendants n)"
    and "id_node d \<noteq> []" and "id_node d \<noteq> ''__root__''"
  shows "\<not> valid (validateMove forest nodeId (Some (id_node d)))"
proof (cases "nodeId = id_node d")
  case True
  then show ?thesis by (simp add: validateMove_def)
next
  case False
  from assms(2) have "id_node d \<in> id_node ` set (nodesOf [n])"
    by (auto simp: descendants_def split: option.splits)
  then have "checkDescendants n (id_node d)"
    by (simp only: checkDescendants_iff)
  then have "isDescendant forest nodeId (id_node d)"
    using assms(1) by (simp add: isDescendant_def)
  with False assms show ?thesis
    by (simp add: validateMove_def namedTarget_def)
qed

definition costBranch :: KPINode where
  "costBranch = KPINode ''cash-cost'' ''Cash Cost'' None None None None None
      (Some [KPINode ''fuel-cost'' ''Fuel'' None (Some ''$'') None None None
               (Some [leaf ''fuel-burn'' ''Burn rate'']) None None None None])
      None None None None"

theorem validateMove_rejects_descendant_witness:
  "findNodeById ''cash-cost'' [costBranch] = Some costBranch
   \<and> leaf ''fuel-burn'' ''Burn rate'' \<in> set (descendants costBranch)
   \<and> id_node (leaf ''fuel-burn'' ''Burn rate'') \<noteq> []
   \<and> id_node (leaf ''fuel-burn'' ''Burn rate'') \<noteq> ''__root__''
   \<and> \<not> valid (validateMove [costBranch] ''cash-cost''
               (Some (id_node (leaf ''fuel-burn'' ''Burn rate''))))"
proof -
  have f: "findNodeById ''cash-cost'' [costBranch] = Some costBranch"
    by (simp add: costBranch_def)
  have d: "leaf ''fuel-burn'' ''Burn rate'' \<in> set (descendants costBranch)"
    by (simp add: costBranch_def descendants_def leaf_def)
  have e: "id_node (leaf ''fuel-burn'' ''Burn rate'') \<noteq> []"
    by (simp add: leaf_def)
  have r: "id_node (leaf ''fuel-burn'' ''Burn rate'') \<noteq> ''__root__''"
    by (simp add: leaf_def)
  from validateMove_rejects_descendant [OF f d e r] f d e r show ?thesis by blast
qed

subsection \<open>Concrete forests and id sequences used in the examples\<close>

definition genIds :: "nat \<Rightarrow> string" where
  "genIds k = ''node-1730505600000-'' @ replicate (Suc k) (CHR ''q'')"

lemmas example_defs =
  leaf_def with_children_def with_relationships_def deepClone_def moduleState_def
  initStore_def closedContextMenu_def

subsection \<open>\<open>moveNode\<close> followed by \<open>findParentOfNode\<close>\<close>

definition twoRoots :: "KPINode list" where
  "twoRoots = [with_children (leaf ''a'' ''A'') (Some [leaf ''x'' ''X'']), leaf ''b'' ''B'']"

text \<open>
  Claim C1 says that after an accepted \<open>moveNode nodeId target\<close> the call
  \<open>findParentOfNode nodeId\<close> returns the target. On the forest \<open>twoRoots\<close> the move of
  \<open>x\<close> under \<open>b\<close> is accepted and carried out, the node count is unchanged (three
  nodes), and yet \<open>findParentOfNode x\<close> is \<^verbatim>\<open>null\<close>: the search enters the first root
  \<open>a\<close>, whose \<open>children\<close> is now the empty array, gets \<^verbatim>\<open>null\<close> back, finds it
  different from \<^verbatim>\<open>undefined\<close>, and returns it without looking at \<open>b\<close>.
\<close>

theorem moveNode_then_findParentOfNode_null:
  "valid (validateMove twoRoots ''x'' (Some ''b''))
   \<and> valid (fst (moveNode ''x'' (Some ''b'') (initStore twoRoots moduleState)))
   \<and> treeData (snd (moveNode ''x'' (Some ''b'') (initStore twoRoots moduleState)))
       = [with_children (leaf ''a'' ''A'') (Some []),
          with_children (leaf ''b'' ''B'') (Some [leaf ''x'' ''X''])]
   \<and> findParentOfNode ''x''
        (treeData (snd (moveNode ''x'' (Some ''b'') (initStore twoRoots moduleState)))) Null
       = Null"
  by (simp add: twoRoots_def example_defs validateMove_def moveNode_def namedTarget_def
       isDescendant_def isMoveValid_def inferCategory_def toLowerCase_def lower_char_def
       startsWith_def removeNodeFromTree_def addNodeToParent_def)

text \<open>
  The node count is not preserved either when the target id names no node: \<open>validateMove\<close>
  then judges the move as a move to the top level, while \<open>addNodeToParent\<close> looks for
  a parent with that id, finds none and drops the subtree that was removed.
\<close>

definition revenueAndCost :: "KPINode list" where
  "revenueAndCost =
     [KPINode ''production-revenue'' ''Production'' None None None None None
        (Some [leaf ''ob-volume'' ''OB Volume'']) None None None None,
      leaf ''cash-cost'' ''Cash Cost'']"

lemma moveNode_missing_target_drops_subtree:
  "valid (validateMove revenueAndCost ''production-revenue'' (Some ''ghost''))
   \<and> length (nodesOf revenueAndCost) = 3
   \<and> treeData (snd (moveNode ''production-revenue'' (Some ''ghost'')
                      (initStore revenueAndCost moduleState)))
       = [leaf ''cash-cost'' ''Cash Cost'']"
  by (simp add: revenueAndCost_def example_defs validateMove_def moveNode_def namedTarget_def
       isDescendant_def isMoveValid_def inferCategory_def toLowerCase_def lower_char_def
       startsWith_def removeNodeFromTree_def addNodeToParent_def)

subsection \<open>\<open>addNode\<close> under an id that no node has\<close>

lemma with_children_same: "children n = cs \<Longrightarrow> with_children n cs = n"
  by (cases n) (simp add: with_children_def)

lemma addToParent_absent:
  "parentId \<notin> id_node ` set (nodesOf nodes) \<Longrightarrow> addToParent parentId newNode nodes = nodes"
proof (induction parentId newNode nodes rule: addToParent.induct)
  case (1 parentId nodeToAdd)
  show ?case by simp
next
  case (2 parentId nodeToAdd node nodes)
  from "2.prems" have ne: "id_node node \<noteq> parentId"
    and rest: "parentId \<notin> id_node ` set (nodesOf nodes)" by auto
  show ?case
  proof (cases "children node")
    case None
    with ne rest "2.IH"(2) show ?thesis by simp
  next
    case (Some cs)
    with "2.prems" have "parentId \<notin> id_node ` set (nodesOf cs)" by auto
    with "2.IH"(1) ne Some have "addToParent parentId nodeToAdd cs = cs" by simp
    with ne rest "2.IH"(2) Some show ?thesis by (simp add: with_children_same)
  qed
qed

text \<open>
  Claim C10: when no node of the forest has the id \<open>parentId\<close>, \<open>addNode\<close> returns the
  generated id, the forest afterwards is the forest before (so it holds no node with the
  returned id that was not there already, and no new node), and the store is flagged as
  changed all the same.
\<close>

theorem addNode_missing_parent_noop:
  assumes "parentId \<notin> id_node ` set (nodesOf (treeData s))"
  shows "fst (addNode gen parentId nodeData s) = gen 0
         \<and> treeData (snd (addNode gen parentId nodeData s)) = treeData s
         \<and> hasUnsavedChanges (snd (addNode gen parentId nodeData s))"
  using assms by (simp add: addNode_def deepClone_def addToParent_absent)

theorem addNode_missing_parent_noop_witness:
  "''ghost'' \<notin> id_node ` set (nodesOf (treeData (initStore twoRoots moduleState)))
   \<and> fst (addNode genIds ''ghost''
            \<lparr>new_name = ''New Node'', new_unit = None, new_esg = None, new_scope = None\<rparr>
            (initStore twoRoots moduleState)) = ''node-1730505600000-q''
   \<and> treeData (snd (addNode genIds ''ghost''
            \<lparr>new_name = ''New Node'', new_unit = None, new_esg = None, new_scope = None\<rparr>
            (initStore twoRoots moduleState))) = twoRoots"
proof -
  have absent: "''ghost'' \<notin> id_node ` set (nodesOf (treeData (initStore twoRoots moduleState)))"
    by (simp add: twoRoots_def example_defs)
  have tree: "treeData (initStore twoRoots moduleState) = twoRoots"
    by (simp add: example_defs)
  have first: "genIds 0 = ''node-1730505600000-q''"
    by (simp add: genIds_def)
  from addNode_missing_parent_noop [OF absent, of genIds] absent tree first
  show ?thesis by simp
qed

subsection \<open>\<open>duplicateNode\<close>\<close>

lemma duplicateWithNewIds_names:
  "map name (nodesOf [fst (duplicateWithNewIds gen k n)])
     = map (\<lambda>m. name m @ '' (copy)'') (nodesOf [n])"
  "map name (nodesOf (fst (duplicateWithNewIds_map gen k cs)))
     = map (\<lambda>m. name m @ '' (copy)'') (nodesOf cs)"
proof (induction gen k n and gen k cs rule: duplicateWithNewIds_duplicateWithNewIds_map.induct)
  case (1 gen k node)
  then show ?case by (cases "children node") (auto split: prod.splits)
next
  case (2 gen k)
  then show ?case by simp
next
  case (3 gen k child cs)
  then show ?case by (auto split: prod.splits option.splits)
qed

lemma findIndex_found:
  "list_ex test vs \<Longrightarrow> 0 \<le> findIndex test vs \<and> nat (findIndex test vs) < length vs
      \<and> test (vs ! nat (findIndex test vs))"
proof (induction vs)
  case Nil
  then show ?case by simp
next
  case (Cons v vs)
  show ?case
  proof (cases "test v")
    case True
    then show ?thesis by simp
  next
    case False
    with Cons.prems have "list_ex test vs" by simp
    from Cons.IH [OF this] False show ?thesis
      by (simp add: Let_def nat_add_distrib)
  qed
qed

lemma spliceInsert_nth:
  "0 \<le> j \<Longrightarrow> nat j \<le> length arr \<Longrightarrow> spliceInsert arr j item ! nat j = item"
  by (simp add: spliceInsert_def nth_append)

definition revenueTree :: "KPINode list" where
  "revenueTree = [with_children (leaf ''rev'' ''Revenue'') (Some [leaf ''vol'' ''Volume''])]"

text \<open>
  Claim C7, as stated, says that the names of the cloned descendants are those of the
  originals, unchanged. Duplicating the top-level node \<open>rev\<close>, whose child is named
  \<open>Volume\<close>, gives a clone whose child is named \<open>Volume (copy)\<close>.
\<close>

theorem duplicateNode_renames_descendant:
  "map name (descendants (revenueTree ! 0)) = [''Volume'']
   \<and> map name (descendants
        (treeData (duplicateNode genIds ''rev'' (initStore revenueTree moduleState)) ! 1))
       = [''Volume (copy)'']"
  by (simp add: revenueTree_def example_defs duplicateNode_def genIds_def spliceInsert_def
       descendants_def)

text \<open>
  Claim C7, amended: \<open>duplicateWithNewIds\<close> appends \<open>(copy)\<close> to the name of every node
  of the clone. For a top-level node with id \<open>nodeId\<close>, at index \<open>i\<close>, the element at
  index \<open>i + 1\<close> after \<open>duplicateNode\<close> is the clone: its name is the name of the
  duplicated node followed by \<open>(copy)\<close>, and the name of each of its descendants is the
  name of the corresponding original descendant followed by \<open>(copy)\<close>.
\<close>

theorem duplicateNode_top_level_names:
  assumes "findNodeById nodeId (treeData s) = Some n"
    and "list_ex (\<lambda>m. id_node m = nodeId) (treeData s)"
  shows "let i = findIndex (\<lambda>m. id_node m = nodeId) (treeData s);
             clone = treeData (duplicateNode gen nodeId s) ! nat (i + 1)
         in id_node (treeData s ! nat i) = nodeId
            \<and> name clone = name n @ '' (copy)''
            \<and> map name (descendants clone) = map (\<lambda>m. name m @ '' (copy)'') (descendants n)"
proof -
  define i where "i = findIndex (\<lambda>m. id_node m = nodeId) (treeData s)"
  define dup where "dup = fst (duplicateWithNewIds gen 0 n)"
  from findIndex_found [OF assms(2)] have i: "0 \<le> i" "nat i < length (treeData s)"
    "id_node (treeData s ! nat i) = nodeId" by (simp_all add: i_def)
  have tree: "treeData (duplicateNode gen nodeId s) = spliceInsert (treeData s) (i + 1) dup"
    using assms by (simp add: duplicateNode_def deepClone_def i_def dup_def)
  have "spliceInsert (treeData s) (i + 1) dup ! nat (i + 1) = dup"
    using i by (intro spliceInsert_nth) auto
  with tree have clone: "treeData (duplicateNode gen nodeId s) ! nat (i + 1) = dup" by simp
  have names: "map name (nodesOf [dup]) = map (\<lambda>m. name m @ '' (copy)'') (nodesOf [n])"
    unfolding dup_def by (rule duplicateWithNewIds_names)
  then have "name dup = name n @ '' (copy)''"
    and "map name (descendants dup) = map (\<lambda>m. name m @ '' (copy)'') (descendants n)"
    by (simp_all add: descendants_def)
  with clone i(3) show ?thesis by (simp add: i_def Let_def)
qed

definition costTree :: "KPINode list" where
  "costTree = [leaf ''ebitda-root'' ''EBITDA'',
               with_children (leaf ''cash-cost'' ''Cash Cost'')
                 (Some [with_children (leaf ''fuel-cost'' ''Fuel'')
                          (Some [leaf ''fuel-burn'' ''Burn rate''])])]"

theorem duplicateNode_top_level_names_witness:
  "findNodeById ''cash-cost'' (treeData (initStore costTree moduleState)) = Some (costTree ! 1)
   \<and> list_ex (\<lambda>m. id_node m = ''cash-cost'') (treeData (initStore costTree moduleState))
   \<and> name (treeData (duplicateNode genIds ''cash-cost'' (initStore costTree moduleState)) ! 2)
       = ''Cash Cost (copy)''
   \<and> map name (descendants
        (treeData (duplicateNode genIds ''cash-cost'' (initStore costTree moduleState)) ! 2))
       = [''Fuel (copy)'', ''Burn rate (copy)'']"
proof -
  have f: "findNodeById ''cash-cost'' (treeData (initStore costTree moduleState))
             = Some (costTree ! 1)"
    by (simp add: costTree_def example_defs)
  have r: "list_ex (\<lambda>m. id_node m = ''cash-cost'') (treeData (initStore costTree moduleState))"
    by (simp add: costTree_def example_defs)
  have i: "findIndex (\<lambda>m. id_node m = ''cash-cost'') (treeData (initStore costTree moduleState)) = 1"
    by (simp add: costTree_def example_defs)
  have d: "map (\<lambda>m. name m @ '' (copy)'') (descendants (costTree ! 1))
             = [''Fuel (copy)'', ''Burn rate (copy)'']"
    by (simp add: costTree_def example_defs descendants_def)
  have n: "name (costTree ! 1) = ''Cash Cost''"
    by (simp add: costTree_def example_defs)
  have two: "nat (1 + 1) = 2" by simp
  from duplicateNode_top_level_names [OF f r, of genIds] f r
  show ?thesis unfolding i Let_def d n two by simp
qed

definition nestedTree :: "KPINode list" where
  "nestedTree =
     [with_children (leaf ''r'' ''R'')
        (Some [with_children (leaf ''a'' ''A'') (Some [leaf ''b'' ''B''])])]"

text \<open>
  Claim C2 says that every descendant of the clone has an id different from the id of the
  corresponding original descendant. Duplicating the nested node \<open>a\<close>, whose child is
  \<open>b\<close>, inserts a sibling with a fresh id right after \<open>a\<close>, but the child of that sibling
  is the original child, with the id \<open>b\<close>: \<open>addSibling\<close> has pushed the duplicate
  before it rebuilds "the last element of the result" around the children of \<open>a\<close>.
\<close>

theorem duplicateNode_nested_reuses_descendant_ids:
  "treeData (duplicateNode genIds ''a'' (initStore nestedTree moduleState))
     = [with_children (leaf ''r'' ''R'')
          (Some [with_children (leaf ''a'' ''A'') (Some [leaf ''b'' ''B'']),
                 with_children (leaf ''node-1730505600000-q'' ''A (copy)'')
                   (Some [leaf ''b'' ''B''])])]"
  by (simp add: nestedTree_def example_defs duplicateNode_def genIds_def)

definition annotatedTree :: "KPINode list" where
  "annotatedTree =
     [KPINode ''ops'' ''Operations'' None None None None None
        (Some [leaf ''uptime'' ''Uptime''])
        (Some False)
        (Some [\<lparr>id_rel = ''link-1'', targetId = ''uptime'', label = Some ''Depends on''\<rparr>])
        (Some [''star-red''])
        (Some (10, 20))]"

text \<open>
  Claim C8 says that \<open>duplicateNode\<close> leaves every field of every pre-existing node
  unchanged. Duplicating the leaf \<open>uptime\<close> under \<open>ops\<close> rebuilds \<open>ops\<close> from the
  eight fields that \<open>addSibling\<close> lists: its \<open>isDetached\<close>, \<open>relationships\<close>,
  \<open>markers\<close> and \<open>position\<close> are gone.
\<close>

theorem duplicateNode_nested_strips_parent_fields:
  "treeData (duplicateNode genIds ''uptime'' (initStore annotatedTree moduleState))
     = [KPINode ''ops'' ''Operations'' None None None None None
          (Some [leaf ''uptime'' ''Uptime'',
                 leaf ''node-1730505600000-q'' ''Uptime (copy)''])
          None None None None]"
  by (simp add: annotatedTree_def example_defs duplicateNode_def genIds_def)

subsection \<open>XMind export: where the relationship records go\<close>

lemma traverse_nodesOf:
  "traverse node = concat (map relationshipRecords (nodesOf [node]))"
  "traverse_forEach nodes = concat (map relationshipRecords (nodesOf nodes))"
proof (induction node and nodes rule: traverse_traverse_forEach.induct)
  case (1 node)
  then show ?case by (cases "children node") simp_all
next
  case 2
  then show ?case by simp
next
  case (3 node nodes)
  then show ?case by (cases "children node") simp_all
qed

lemma collectRelationships_nodesOf:
  "collectRelationships nodes = concat (map relationshipRecords (nodesOf nodes))"
  by (simp only: collectRelationships_def traverse_nodesOf)

lemma sheetRecords_exportSheet:
  "sheetRecords (exportSheet xgen data detachedNodes index rootNode)
     = collectRelationships (if index = 0 then data else [rootNode])"
  by (simp add: sheetRecords_def exportSheet_def Let_def)

lemma exportSheets_attached:
  assumes "filter (\<lambda>n. \<not> truthy (isDetached n)) data \<noteq> []"
  shows "exportSheets xgen data
           = map (\<lambda>(index, rootNode).
                    exportSheet xgen data (filter (\<lambda>n. truthy (isDetached n)) data) index rootNode)
               (enumerate 0 (filter (\<lambda>n. \<not> truthy (isDetached n)) data))"
  using assms by (simp add: exportSheets_def Let_def)

lemma exportSheets_nth:
  assumes "i < length (filter (\<lambda>n. \<not> truthy (isDetached n)) data)"
  shows "exportSheets xgen data ! i
           = exportSheet xgen data (filter (\<lambda>n. truthy (isDetached n)) data) i
               (filter (\<lambda>n. \<not> truthy (isDetached n)) data ! i)"
proof -
  from assms have ne: "filter (\<lambda>n. \<not> truthy (isDetached n)) data \<noteq> []" by auto
  show ?thesis
    using assms by (simp add: exportSheets_attached [OF ne] nth_enumerate_eq)
qed

lemma nodesOf_append: "nodesOf (xs @ ys) = nodesOf xs @ nodesOf ys"
  by (induction xs) simp_all

lemma nodesOf_subtree: "n \<in> set forest \<Longrightarrow> set (nodesOf [n]) \<subseteq> set (nodesOf forest)"
proof (induction forest)
  case Nil
  then show ?case by simp
next
  case (Cons x xs)
  have "nodesOf (x # xs) = nodesOf [x] @ nodesOf xs"
    using nodesOf_append [of "[x]" xs] by simp
  with Cons show ?case by auto
qed

lemma relationshipRecords_source:
  "r \<in> set (relationshipRecords node) \<Longrightarrow> end1Id r = id_node node"
  by (auto simp: relationshipRecords_def split: option.splits)

definition xmindIds :: "nat \<Rightarrow> string" where
  "xmindIds k = ''k3f9x0q2m7c1'' @ digits k"

definition floatingPair :: "KPINode list" where
  "floatingPair =
     [KPINode ''note-1'' ''Assumption'' None None None None None None (Some True)
        (Some [\<lparr>id_rel = ''link-1'', targetId = ''note-2'', label = None\<rparr>]) None (Some (40, 80)),
      KPINode ''note-2'' ''Risk'' None None None None None None (Some True)
        None None (Some (40, 160))]"

definition financeForest :: "KPINode list" where
  "financeForest =
     [KPINode ''ebitda-root'' ''EBITDA'' None (Some ''$'') None None None
        (Some [leaf ''margin'' ''Margin'']) None
        (Some [\<lparr>id_rel = ''link-7'', targetId = ''fuel-cost'', label = Some ''Depends on''\<rparr>])
        None None,
      KPINode ''cash-cost'' ''Cash Cost'' None None None None None
        (Some [KPINode ''fuel-cost'' ''Fuel'' None None None None None None None
                 (Some [\<lparr>id_rel = ''link-8'', targetId = ''margin'', label = None\<rparr>])
                 None None])
        None None None None]"

text \<open>
  A forest of detached nodes only is exported as one sheet, built around a placeholder root
  topic. That sheet is built without the \<open>relationships\<close> field, although a node of
  the forest holds a relationship: the branch that builds it does not call
  \<^verbatim>\<open>collectRelationships\<close>, which the branch for the first attached root calls on the
  whole forest.
\<close>

lemma placeholder_sheet_drops_relationships:
  "length (exportSheets xmindIds floatingPair) = 1
   \<and> sheetRecords (exportSheets xmindIds floatingPair ! 0) = []
   \<and> collectRelationships floatingPair
       = [\<lparr>id_xrel = ''link-1'', end1Id = ''note-1'', end2Id = ''note-2'', title_xrel = None,
            attributedTitle_xrel = None\<rparr>]"
  by (simp add: floatingPair_def exportSheets_def truthy_def sheetRecords_def
       collectRelationships_def relationshipRecords_def)

definition plantForest :: "KPINode list" where
  "plantForest =
     [KPINode ''availability'' ''Availability'' None (Some ''%'') None None None
        (Some [leaf ''uptime'' ''Uptime'']) None None None None,
      KPINode ''cost'' ''Cost'' None (Some ''$'') None None None
        (Some [KPINode ''maintenance'' ''Maintenance'' None None None None None None None
                 (Some [\<lparr>id_rel = ''link-3'', targetId = ''uptime'',
                          label = Some ''Drives''\<rparr>])
                 None None])
        None None None None]"

text \<open>
  Claim C5, as stated, lets a sheet after the first carry only the relationship records
  found strictly within the subtree of its own root, so that a relationship between two
  sheets is emitted once, on the first sheet. In \<open>plantForest\<close> the node
  \<open>maintenance\<close>, below the second root, holds a relationship to the node \<open>uptime\<close>,
  below the first root. The second sheet carries its record, although \<open>uptime\<close> is no
  node of the subtree of the second root, and the first sheet carries the same record.
\<close>

theorem later_sheet_carries_cross_sheet_record:
  "sheetRecords (exportSheets xmindIds plantForest ! 1)
     = [\<lparr>id_xrel = ''link-3'', end1Id = ''maintenance'', end2Id = ''uptime'',
          title_xrel = Some ''Drives'', attributedTitle_xrel = Some [''Drives'']\<rparr>]
   \<and> map id_node (nodesOf [filter (\<lambda>n. \<not> truthy (isDetached n)) plantForest ! 1])
       = [''cost'', ''maintenance'']
   \<and> sheetRecords (exportSheets xmindIds plantForest ! 0)
       = [\<lparr>id_xrel = ''link-3'', end1Id = ''maintenance'', end2Id = ''uptime'',
            title_xrel = Some ''Drives'', attributedTitle_xrel = Some [''Drives'']\<rparr>]"
  by (simp add: plantForest_def exportSheets_def exportSheet_def truthy_def sheetRecords_def
      collectRelationships_def relationshipRecords_def leaf_def enumerate_eq_zip upt_rec Let_def)

text \<open>
  Claim C5, amended: when the forest has at least one attached top-level node, there is
  one sheet per attached top-level node. The records of the first sheet are the records
  of every node of the whole forest. The records of every later sheet are the records of
  the relationships stored on the nodes of the subtree of its own root: the source
  (\<open>end1Id\<close>) of each is a node of that subtree, the target may be any node, and each of
  them is on the first sheet as well.
\<close>

theorem first_sheet_all_relationships:
  assumes "filter (\<lambda>n. \<not> truthy (isDetached n)) data \<noteq> []"
  shows "length (exportSheets xgen data) = length (filter (\<lambda>n. \<not> truthy (isDetached n)) data)
    \<and> sheetRecords (exportSheets xgen data ! 0)
        = concat (map relationshipRecords (nodesOf data))
    \<and> (\<forall>i. 0 < i \<and> i < length (filter (\<lambda>n. \<not> truthy (isDetached n)) data) \<longrightarrow>
          sheetRecords (exportSheets xgen data ! i)
            = concat (map relationshipRecords
                        (nodesOf [filter (\<lambda>n. \<not> truthy (isDetached n)) data ! i]))
          \<and> (\<forall>r \<in> set (sheetRecords (exportSheets xgen data ! i)).
                end1Id r
                  \<in> id_node ` set (nodesOf [filter (\<lambda>n. \<not> truthy (isDetached n)) data ! i]))
          \<and> set (sheetRecords (exportSheets xgen data ! i))
              \<subseteq> set (sheetRecords (exportSheets xgen data ! 0)))"
proof -
  let ?roots = "filter (\<lambda>n. \<not> truthy (isDetached n)) data"
  have len: "length (exportSheets xgen data) = length ?roots"
    by (simp add: exportSheets_attached [OF assms])
  from assms have "0 < length ?roots" by simp
  then have first: "sheetRecords (exportSheets xgen data ! 0)
                      = concat (map relationshipRecords (nodesOf data))"
    by (simp add: exportSheets_nth sheetRecords_exportSheet collectRelationships_nodesOf)
  have later: "sheetRecords (exportSheets xgen data ! i)
                 = concat (map relationshipRecords (nodesOf [?roots ! i]))"
    if "0 < i" "i < length ?roots" for i
    using that
    by (simp add: exportSheets_nth sheetRecords_exportSheet collectRelationships_nodesOf)
  have sources: "\<forall>r \<in> set (sheetRecords (exportSheets xgen data ! i)).
                   end1Id r \<in> id_node ` set (nodesOf [?roots ! i])"
    if "0 < i" "i < length ?roots" for i
    unfolding later [OF that] using relationshipRecords_source by fastforce
  have twice: "set (sheetRecords (exportSheets xgen data ! i))
                 \<subseteq> set (sheetRecords (exportSheets xgen data ! 0))"
    if "0 < i" "i < length ?roots" for i
  proof -
    from that(2) have "?roots ! i \<in> set ?roots" by (rule nth_mem)
    then have "?roots ! i \<in> set data" by simp
    from nodesOf_subtree [OF this] show ?thesis
      unfolding later [OF that] first by auto
  qed
  from len first later sources twice show ?thesis by blast
qed

theorem first_sheet_all_relationships_witness:
  "filter (\<lambda>n. \<not> truthy (isDetached n)) financeForest \<noteq> []
   \<and> length (exportSheets xmindIds financeForest) = 2
   \<and> sheetRecords (exportSheets xmindIds financeForest ! 0)
       = [\<lparr>id_xrel = ''link-7'', end1Id = ''ebitda-root'', end2Id = ''fuel-cost'',
            title_xrel = Some ''Depends on'', attributedTitle_xrel = Some [''Depends on'']\<rparr>,
          \<lparr>id_xrel = ''link-8'', end1Id = ''fuel-cost'', end2Id = ''margin'',
            title_xrel = None, attributedTitle_xrel = None\<rparr>]
   \<and> 0 < (1::nat) \<and> 1 < length (filter (\<lambda>n. \<not> truthy (isDetached n)) financeForest)
   \<and> sheetRecords (exportSheets xmindIds financeForest ! 1)
       = [\<lparr>id_xrel = ''link-8'', end1Id = ''fuel-cost'', end2Id = ''margin'',
            title_xrel = None, attributedTitle_xrel = None\<rparr>]
   \<and> set (map end1Id (sheetRecords (exportSheets xmindIds financeForest ! 1)))
       \<subseteq> {''cash-cost'', ''fuel-cost''}
   \<and> set (sheetRecords (exportSheets xmindIds financeForest ! 1))
       \<subseteq> set (sheetRecords (exportSheets xmindIds financeForest ! 0))"
proof -
  have roots: "filter (\<lambda>n. \<not> truthy (isDetached n)) financeForest = financeForest"
    by (simp add: financeForest_def truthy_def)
  have ne: "filter (\<lambda>n. \<not> truthy (isDetached n)) financeForest \<noteq> []"
    by (simp add: roots) (simp add: financeForest_def)
  have len: "length financeForest = 2"
    by (simp add: financeForest_def)
  have all: "concat (map relationshipRecords (nodesOf financeForest))
       = [\<lparr>id_xrel = ''link-7'', end1Id = ''ebitda-root'', end2Id = ''fuel-cost'',
            title_xrel = Some ''Depends on'', attributedTitle_xrel = Some [''Depends on'']\<rparr>,
          \<lparr>id_xrel = ''link-8'', end1Id = ''fuel-cost'', end2Id = ''margin'',
            title_xrel = None, attributedTitle_xrel = None\<rparr>]"
    by (simp add: financeForest_def relationshipRecords_def leaf_def)
  have own: "concat (map relationshipRecords (nodesOf [financeForest ! 1]))
       = [\<lparr>id_xrel = ''link-8'', end1Id = ''fuel-cost'', end2Id = ''margin'',
            title_xrel = None, attributedTitle_xrel = None\<rparr>]"
    by (simp add: financeForest_def relationshipRecords_def leaf_def)
  have ids: "id_node ` set (nodesOf [financeForest ! 1]) = {''cash-cost'', ''fuel-cost''}"
    by (simp add: financeForest_def)
  have one: "0 < (1::nat) \<and> 1 < length (filter (\<lambda>n. \<not> truthy (isDetached n)) financeForest)"
    by (simp add: roots len)
  note whole = first_sheet_all_relationships [OF ne, of xmindIds]
  from whole
  have "length (exportSheets xmindIds financeForest)
          = length (filter (\<lambda>n. \<not> truthy (isDetached n)) financeForest)"
    by (rule conjunct1)
  then have count: "length (exportSheets xmindIds financeForest) = 2"
    by (simp add: roots len)
  from whole
  have first: "sheetRecords (exportSheets xmindIds financeForest ! 0)
                 = concat (map relationshipRecords (nodesOf financeForest))"
    by (rule conjunct1 [OF conjunct2])
  from whole [THEN conjunct2, THEN conjunct2, rule_format, OF one, unfolded roots]
  have later: "sheetRecords (exportSheets xmindIds financeForest ! 1)
                 = concat (map relationshipRecords (nodesOf [financeForest ! 1]))"
    and sources: "\<forall>r \<in> set (sheetRecords (exportSheets xmindIds financeForest ! 1)).
                    end1Id r \<in> id_node ` set (nodesOf [financeForest ! 1])"
    and twice: "set (sheetRecords (exportSheets xmindIds financeForest ! 1))
                  \<subseteq> set (sheetRecords (exportSheets xmindIds financeForest ! 0))"
    by blast+
  from sources have sources': "set (map end1Id (sheetRecords (exportSheets xmindIds financeForest ! 1)))
                    \<subseteq> {''cash-cost'', ''fuel-cost''}"
    unfolding ids by auto
  from ne count first [unfolded all] one later [unfolded own] sources' twice
  show ?thesis by blast
qed

subsection \<open>XMind round trip of a name with a unit\<close>

lemma kpiNodeToXMindTopic_fields:
  "id_topic (kpiNodeToXMindTopic n) = id_node n"
  "title_topic (kpiNodeToXMindTopic n) = topicTitle n"
  "attributedTitle (kpiNodeToXMindTopic n) = Some [topicTitle n]"
  by (simp_all add: kpiNodeToXMindTopic.simps [of n] Let_def)

lemma setDetached_fields:
  "id_topic (setDetached t ds) = id_topic t"
  "title_topic (setDetached t ds) = title_topic t"
  "attributedTitle (setDetached t ds) = attributedTitle t"
  by (simp_all add: setDetached_def)

lemma splitTitle_Revenue: "splitTitle ''Revenue ($)'' = (''Revenue'', Some ''$'')"
proof -
  have groups: "unitMatch ''Revenue ($)'' = Some (''Revenue'', ''$'')"
    by (simp add: unitMatch_def matchLazy.simps matchSuffix_def stripAll.simps
        whiteSpace_def lineTerminators_def startsWithOneOf_def startsWith_def)
  have trimmed_name: "trim ''Revenue'' = ''Revenue''"
    by (simp add: trim_def stripAll.simps whiteSpace_def startsWith_def)
  have trimmed_unit: "trim ''$'' = ''$''"
    by (simp add: trim_def stripAll.simps whiteSpace_def startsWith_def)
  show ?thesis
    by (simp add: splitTitle_def groups trimmed_name trimmed_unit)
qed

lemma attachedNodes_filter:
  "attachedNodes (filter (\<lambda>c. \<not> truthy (isDetached c)) cs) = attachedNodes cs"
  by (induction cs rule: attachedNodes.induct) simp_all

lemma xmindTopicToKPINode_each_map:
  "xmindTopicToKPINode_each (map f xs) = map (\<lambda>c. xmindTopicToKPINode (f c) False) xs"
  by (induction xs) simp_all

definition splitFields :: "KPINode \<Rightarrow> string \<times> string \<times> string option" where
  "splitFields c = (id_node c, fst (splitTitle (topicTitle c)), snd (splitTitle (topicTitle c)))"

definition fields :: "KPINode \<Rightarrow> string \<times> string \<times> string option" where
  "fields m = (id_node m, name m, unit m)"

lemma attachedOf_kpiNodeToXMindTopic:
  "attachedOf (kpiNodeToXMindTopic r)
     = (case children r of
          None \<Rightarrow> None
        | Some cs \<Rightarrow>
            if filter (\<lambda>c. \<not> truthy (isDetached c)) cs \<noteq> []
            then Some (map kpiNodeToXMindTopic (filter (\<lambda>c. \<not> truthy (isDetached c)) cs))
            else None)"
  by (cases "children r") (simp_all add: kpiNodeToXMindTopic.simps [of r] attachedOf_def Let_def)

lemma attachedOf_setDetached: "attachedOf (setDetached t ds) = attachedOf t"
  by (simp add: attachedOf_def setDetached_def split: option.splits prod.splits)

lemma summary_kpiNodeToXMindTopic: "summary (kpiNodeToXMindTopic r) = None"
  by (simp add: kpiNodeToXMindTopic.simps [of r] Let_def)

lemma summary_setDetached: "summary (setDetached t ds) = summary t"
  by (simp add: setDetached_def)

text \<open>The nodes below a converted topic whose attached group is a list of exported nodes.\<close>

lemma nodesOf_converted:
  assumes "attributedTitle t = Some [topicTitle r]" and "id_topic t = id_node r"
    and "summary t = None"
    and "attachedOf t = (if xs \<noteq> [] then Some (map kpiNodeToXMindTopic xs) else None)"
  shows "nodesOf [xmindTopicToKPINode t d]
           = xmindTopicToKPINode t d
             # nodesOf (map (\<lambda>c. xmindTopicToKPINode (kpiNodeToXMindTopic c) False) xs)"
    and "fields (xmindTopicToKPINode t d) = splitFields r"
  using assms
  by (simp_all add: xmindTopicToKPINode.simps [of t d] Let_def xmindTopicToKPINode_each_map
      fields_def splitFields_def)

lemma converted_children:
  assumes "\<And>c. c \<in> set xs \<Longrightarrow>
             map fields (nodesOf [xmindTopicToKPINode (kpiNodeToXMindTopic c) False])
               = map splitFields (attachedNodes [c])"
  shows "map fields (nodesOf (map (\<lambda>c. xmindTopicToKPINode (kpiNodeToXMindTopic c) False) xs))
           = map splitFields (attachedNodes xs)"
  using assms
proof (induction xs)
  case Nil
  show ?case by simp
next
  case (Cons x xs)
  have "nodesOf (map (\<lambda>c. xmindTopicToKPINode (kpiNodeToXMindTopic c) False) (x # xs))
          = nodesOf [xmindTopicToKPINode (kpiNodeToXMindTopic x) False]
            @ nodesOf (map (\<lambda>c. xmindTopicToKPINode (kpiNodeToXMindTopic c) False) xs)"
    using nodesOf_append [of "[xmindTopicToKPINode (kpiNodeToXMindTopic x) False]"] by simp
  moreover have "attachedNodes (x # xs) = attachedNodes [x] @ attachedNodes xs"
    by simp
  ultimately show ?case
    using Cons.IH Cons.prems by simp
qed

lemma converted_subtree:
  "attributedTitle t = Some [topicTitle r] \<Longrightarrow> id_topic t = id_node r \<Longrightarrow> summary t = None
   \<Longrightarrow> attachedOf t = attachedOf (kpiNodeToXMindTopic r)
   \<Longrightarrow> map fields (nodesOf [xmindTopicToKPINode t d])
         = splitFields r
           # map splitFields (case children r of None \<Rightarrow> [] | Some cs \<Rightarrow> attachedNodes cs)"
proof (induction r arbitrary: t d rule: measure_induct_rule [where f = size])
  case (less r)
  define cs where "cs = (case children r of None \<Rightarrow> [] | Some cs \<Rightarrow> cs)"
  define xs where "xs = filter (\<lambda>c. \<not> truthy (isDetached c)) cs"
  have att: "attachedOf t = (if xs \<noteq> [] then Some (map kpiNodeToXMindTopic xs) else None)"
    by (simp add: less.prems(4) attachedOf_kpiNodeToXMindTopic xs_def cs_def split: option.splits)
  have sub: "map fields (nodesOf [xmindTopicToKPINode (kpiNodeToXMindTopic c) False])
               = map splitFields (attachedNodes [c])" if "c \<in> set xs" for c
  proof -
    from that have c: "c \<in> set cs" "\<not> truthy (isDetached c)" by (simp_all add: xs_def)
    then obtain cs' where "children r = Some cs'" "c \<in> set cs'"
      by (cases "children r") (simp_all add: cs_def)
    then have "size c < size r"
      using child_size [of cs' r c] by simp
    from less.IH [OF this, of "kpiNodeToXMindTopic c" False] c(2)
    show ?thesis
      by (simp add: kpiNodeToXMindTopic_fields summary_kpiNodeToXMindTopic)
  qed
  have "map fields (nodesOf (map (\<lambda>c. xmindTopicToKPINode (kpiNodeToXMindTopic c) False) xs))
          = map splitFields (attachedNodes xs)"
    using sub by (rule converted_children)
  also have "attachedNodes xs = attachedNodes cs"
    unfolding xs_def by (rule attachedNodes_filter)
  finally have below:
    "map fields (nodesOf (map (\<lambda>c. xmindTopicToKPINode (kpiNodeToXMindTopic c) False) xs))
       = map splitFields (attachedNodes cs)" .
  have "attachedNodes cs = (case children r of None \<Rightarrow> [] | Some cs \<Rightarrow> attachedNodes cs)"
    by (simp add: cs_def split: option.splits)
  with below nodesOf_converted [OF less.prems(1,2,3) att, of d]
  show ?case by simp
qed

lemma attachedNodes_root:
  "n \<in> set (attachedNodes forest) \<Longrightarrow>
   \<exists>root \<in> set forest. \<not> truthy (isDetached root) \<and> n \<in> set (attachedNodes [root])"
proof (induction forest)
  case Nil
  then show ?case by simp
next
  case (Cons root forest)
  have "attachedNodes (root # forest) = attachedNodes [root] @ attachedNodes forest"
    by simp
  with Cons.prems consider "n \<in> set (attachedNodes [root])" | "n \<in> set (attachedNodes forest)"
    by (metis Un_iff set_append)
  then show ?case
  proof cases
    case 1
    then have "\<not> truthy (isDetached root)" by (auto split: if_splits)
    with 1 show ?thesis by (metis list.set_intros(1))
  next
    case 2
    from Cons.IH [OF this] show ?thesis by (metis list.set_intros(2))
  qed
qed

lemma storeRelationships_fields:
  "map fields (nodesOf (storeRelationships heap forest)) = map fields (nodesOf forest)"
  by (induction heap forest rule: storeRelationships.induct)
     (simp_all add: fields_def split: option.splits)

lemma importSheets_fields:
  "map fields (nodesOf (importSheets sheets))
     = map fields (nodesOf (concat (map sheetNodes sheets)))"
  by (simp add: importSheets_def Let_def processRelationships_def storeRelationships_fields)

lemma nodesOf_concat_mem:
  "xs \<in> set xss \<Longrightarrow> x \<in> set (nodesOf [hd xs]) \<Longrightarrow> xs \<noteq> []
     \<Longrightarrow> x \<in> set (nodesOf (concat xss))"
proof (induction xss)
  case Nil
  then show ?case by simp
next
  case (Cons ys yss)
  show ?case
  proof (cases "xs = ys")
    case True
    with Cons.prems obtain y ys' where "ys = y # ys'" by (cases ys) auto
    with True Cons.prems(2) show ?thesis
      by (auto simp: nodesOf_append)
  next
    case False
    with Cons show ?thesis by (auto simp: nodesOf_append)
  qed
qed


lemma splitTitle_Root: "splitTitle ''Root'' = (''Root'', None)"
proof -
  have "unitMatch ''Root'' = None"
    by (simp add: unitMatch_def matchLazy.simps matchSuffix_def stripAll.simps
        whiteSpace_def lineTerminators_def startsWithOneOf_def startsWith_def)
  then show ?thesis by (simp add: splitTitle_def)
qed

text \<open>
  The nodes that a round trip keeps. The export writes the attached children of a node into
  the \<open>attached\<close> group of its topic and the import reads that group back, so a converted
  node brings along the nodes reached from it through attached children: \<open>reached\<close>. The
  import reads a \<open>detached\<close> group only on the root topic of a sheet: \<open>floating\<close> is the
  list of nodes that the export puts there, the detached top-level nodes on the first
  sheet when there are any, the detached children of the root otherwise. \<open>survivors\<close>
  lists, sheet by sheet, the nodes reached from the root and from the nodes of its floating
  group; a forest without attached top-level node is exported as one sheet whose floating
  group holds the detached top-level nodes.
\<close>

definition reached :: "KPINode \<Rightarrow> KPINode list" where
  "reached n = n # attachedNodes (case children n of None \<Rightarrow> [] | Some cs \<Rightarrow> cs)"

definition floating :: "KPINode list \<Rightarrow> nat \<Rightarrow> KPINode \<Rightarrow> KPINode list" where
  "floating detachedNodes index rootNode =
     (if index = 0 \<and> detachedNodes \<noteq> [] then detachedNodes
      else filter (\<lambda>c. truthy (isDetached c))
             (case children rootNode of None \<Rightarrow> [] | Some cs \<Rightarrow> cs))"

definition survivors :: "KPINode list \<Rightarrow> KPINode list" where
  "survivors data =
     (let rootNodes = filter (\<lambda>n. \<not> truthy (isDetached n)) data;
          detachedNodes = filter (\<lambda>n. truthy (isDetached n)) data
      in if rootNodes = [] then concat (map reached detachedNodes)
         else concat (map (\<lambda>(index, rootNode).
                             reached rootNode
                             @ concat (map reached (floating detachedNodes index rootNode)))
                        (enumerate 0 rootNodes)))"

lemma detachedOf_kpiNodeToXMindTopic:
  "detachedOf (kpiNodeToXMindTopic r)
     = (case children r of
          None \<Rightarrow> None
        | Some cs \<Rightarrow>
            if filter (\<lambda>c. truthy (isDetached c)) cs \<noteq> []
            then Some (map kpiNodeToXMindTopic (filter (\<lambda>c. truthy (isDetached c)) cs))
            else None)"
  by (cases "children r") (simp_all add: kpiNodeToXMindTopic.simps [of r] detachedOf_def Let_def)

lemma detachedOf_setDetached: "detachedOf (setDetached t ds) = Some ds"
  by (simp add: detachedOf_def setDetached_def split: option.splits prod.splits)

lemma converted_reached:
  "map fields (nodesOf [xmindTopicToKPINode (kpiNodeToXMindTopic r) d])
     = map splitFields (reached r)"
  using converted_subtree [of "kpiNodeToXMindTopic r" r d]
  by (cases "children r")
     (simp_all add: kpiNodeToXMindTopic_fields summary_kpiNodeToXMindTopic reached_def)

lemma converted_floating:
  "map fields (nodesOf (map (\<lambda>t. xmindTopicToKPINode t True) (map kpiNodeToXMindTopic ds)))
     = map splitFields (concat (map reached ds))"
proof (induction ds)
  case Nil
  show ?case by simp
next
  case (Cons x xs)
  have "nodesOf (map (\<lambda>t. xmindTopicToKPINode t True) (map kpiNodeToXMindTopic (x # xs)))
          = nodesOf [xmindTopicToKPINode (kpiNodeToXMindTopic x) True]
            @ nodesOf (map (\<lambda>t. xmindTopicToKPINode t True) (map kpiNodeToXMindTopic xs))"
    using nodesOf_append [of "[xmindTopicToKPINode (kpiNodeToXMindTopic x) True]"] by simp
  with Cons.IH converted_reached [of x True] show ?case by simp
qed

lemma sheetNodes_root:
  assumes "rootTopic sheet = Some t"
    and "map fields (nodesOf [xmindTopicToKPINode t False]) = map splitFields front"
    and "detachedOf t = (if ds \<noteq> [] then Some (map kpiNodeToXMindTopic ds) else None)"
  shows "map fields (nodesOf (sheetNodes sheet))
           = map splitFields (front @ concat (map reached ds))"
proof -
  have "nodesOf (xmindTopicToKPINode t False # rest)
          = nodesOf [xmindTopicToKPINode t False] @ nodesOf rest" for rest
    using nodesOf_append [of "[xmindTopicToKPINode t False]" rest] by simp
  with assms converted_floating [of ds] show ?thesis
    by (simp add: sheetNodes_def)
qed

lemma sheetNodes_exportSheet:
  "map fields (nodesOf (sheetNodes (exportSheet xgen data detachedNodes index rootNode)))
     = map splitFields
         (reached rootNode @ concat (map reached (floating detachedNodes index rootNode)))"
proof (cases "index = 0 \<and> detachedNodes \<noteq> []")
  case True
  let ?t = "setDetached (kpiNodeToXMindTopic rootNode) (map kpiNodeToXMindTopic detachedNodes)"
  have root: "rootTopic (exportSheet xgen data detachedNodes index rootNode) = Some ?t"
    using True by (simp add: exportSheet_def Let_def)
  have front: "map fields (nodesOf [xmindTopicToKPINode ?t False])
                 = map splitFields (reached rootNode)"
    using converted_subtree [of ?t rootNode False]
    by (cases "children rootNode")
       (simp_all add: setDetached_fields kpiNodeToXMindTopic_fields summary_setDetached
          summary_kpiNodeToXMindTopic attachedOf_setDetached reached_def)
  have det: "detachedOf ?t = (if detachedNodes \<noteq> []
                              then Some (map kpiNodeToXMindTopic detachedNodes) else None)"
    using True by (simp add: detachedOf_setDetached)
  from sheetNodes_root [OF root front det] True show ?thesis
    by (simp add: floating_def)
next
  case False
  let ?t = "kpiNodeToXMindTopic rootNode"
  let ?ds = "filter (\<lambda>c. truthy (isDetached c))
               (case children rootNode of None \<Rightarrow> [] | Some cs \<Rightarrow> cs)"
  have root: "rootTopic (exportSheet xgen data detachedNodes index rootNode) = Some ?t"
    using False by (auto simp: exportSheet_def Let_def)
  have front: "map fields (nodesOf [xmindTopicToKPINode ?t False])
                 = map splitFields (reached rootNode)"
    by (rule converted_reached)
  have det: "detachedOf ?t = (if ?ds \<noteq> [] then Some (map kpiNodeToXMindTopic ?ds) else None)"
    by (simp add: detachedOf_kpiNodeToXMindTopic split: option.splits)
  from sheetNodes_root [OF root front det] False show ?thesis
    by (auto simp: floating_def)
qed

lemma nodesOf_concat: "nodesOf (concat xss) = concat (map nodesOf xss)"
  by (induction xss) (simp_all add: nodesOf_append)

lemma sheetNodes_placeholder:
  "map fields
     (nodesOf (sheetNodes
        \<lparr>id_sheet = i, class_sheet = c, title_sheet = s,
           rootTopic =
             Some (XMindTopic rootId (Some ''topic'') ''Root'' (Some [''Root'']) None None None
                     (Some (None, Some (map kpiNodeToXMindTopic detachedNodes))) None),
           relationships_sheet = None\<rparr>))
     = (rootId, ''Root'', None) # map splitFields (concat (map reached detachedNodes))"
proof -
  let ?t = "XMindTopic rootId (Some ''topic'') ''Root'' (Some [''Root'']) None None None
              (Some (None, Some (map kpiNodeToXMindTopic detachedNodes))) None"
  have node: "nodesOf [xmindTopicToKPINode ?t False] = [xmindTopicToKPINode ?t False]"
    "fields (xmindTopicToKPINode ?t False) = (rootId, ''Root'', None)"
    by (simp_all add: xmindTopicToKPINode.simps [of ?t] attachedOf_def fields_def
        splitTitle_Root Let_def)
  have "nodesOf (xmindTopicToKPINode ?t False # rest)
          = nodesOf [xmindTopicToKPINode ?t False] @ nodesOf rest" for rest
    using nodesOf_append [of "[xmindTopicToKPINode ?t False]" rest] by simp
  with node converted_floating [of detachedNodes] show ?thesis
    by (simp add: sheetNodes_def detachedOf_def)
qed

text \<open>The ids, names and units of the nodes of a forest after a round trip.\<close>

lemma roundtrip_fields:
  "map fields (nodesOf (importSheets (exportSheets xgen data)))
     = (if filter (\<lambda>n. \<not> truthy (isDetached n)) data = []
           \<and> filter (\<lambda>n. truthy (isDetached n)) data \<noteq> []
        then [(xgen 1, ''Root'', None)] else [])
       @ map splitFields (survivors data)"
proof (cases "filter (\<lambda>n. \<not> truthy (isDetached n)) data = []")
  case True
  show ?thesis
  proof (cases "filter (\<lambda>n. truthy (isDetached n)) data = []")
    case none: True
    with True show ?thesis
      by (simp add: importSheets_fields exportSheets_def survivors_def)
  next
    case False
    with True sheetNodes_placeholder [of "xgen 0" "Some ''sheet''" "''Sheet 1''" "xgen 1"
        "filter (\<lambda>n. truthy (isDetached n)) data"]
    show ?thesis
      by (simp add: importSheets_fields exportSheets_def survivors_def)
  qed
next
  case False
  let ?roots = "filter (\<lambda>n. \<not> truthy (isDetached n)) data"
  let ?det = "filter (\<lambda>n. truthy (isDetached n)) data"
  have "map fields (nodesOf (concat (map sheetNodes (exportSheets xgen data))))
          = concat (map (\<lambda>(index, rootNode).
                           map splitFields
                             (reached rootNode
                              @ concat (map reached (floating ?det index rootNode))))
                      (enumerate 0 ?roots))"
    by (simp add: exportSheets_attached [OF False] nodesOf_concat map_concat comp_def
        case_prod_unfold sheetNodes_exportSheet)
  also have "\<dots> = map splitFields (survivors data)"
    using False by (simp add: survivors_def map_concat comp_def case_prod_unfold)
  finally show ?thesis
    using False by (simp add: importSheets_fields)
qed

lemma reached_self: "n \<in> set (reached n)"
  by (simp add: reached_def)

lemma attachedNodes_reached:
  "n \<in> set (attachedNodes forest) \<Longrightarrow>
   \<exists>root \<in> set forest. \<not> truthy (isDetached root) \<and> n \<in> set (reached root)"
proof -
  assume "n \<in> set (attachedNodes forest)"
  from attachedNodes_root [OF this] obtain root where
    "root \<in> set forest" "\<not> truthy (isDetached root)" "n \<in> set (attachedNodes [root])"
    by blast
  then show ?thesis
    by (cases "children root") (auto simp: reached_def)
qed

lemma survivors_root:
  assumes "root \<in> set data" and "\<not> truthy (isDetached root)"
  shows "set (reached root) \<subseteq> set (survivors data)"
proof -
  let ?roots = "filter (\<lambda>n. \<not> truthy (isDetached n)) data"
  from assms have "root \<in> set ?roots" by simp
  then obtain i where i: "i < length ?roots" "?roots ! i = root"
    by (metis in_set_conv_nth)
  then have "(i, root) \<in> set (enumerate 0 ?roots)"
    by (auto simp: in_set_enumerate_eq)
  moreover from i have "?roots \<noteq> []" by auto
  ultimately show ?thesis
    by (fastforce simp: survivors_def Let_def)
qed

lemma survivors_detached:
  assumes "d \<in> set data" and "truthy (isDetached d)"
  shows "set (reached d) \<subseteq> set (survivors data)"
proof (cases "filter (\<lambda>n. \<not> truthy (isDetached n)) data = []")
  case True
  from assms have "d \<in> set (filter (\<lambda>n. truthy (isDetached n)) data)" by simp
  then have "set (reached d)
               \<subseteq> set (concat (map reached (filter (\<lambda>n. truthy (isDetached n)) data)))"
    by (simp only: set_concat set_map) blast
  with True show ?thesis
    by (simp add: survivors_def Let_def)
next
  case False
  let ?roots = "filter (\<lambda>n. \<not> truthy (isDetached n)) data"
  let ?det = "filter (\<lambda>n. truthy (isDetached n)) data"
  from False obtain r rs where roots: "?roots = r # rs" by (cases ?roots) auto
  from assms have d: "d \<in> set ?det" by simp
  from assms have "?det \<noteq> []" by (auto simp: filter_empty_conv)
  then have fl: "floating ?det 0 r = ?det" by (simp add: floating_def)
  from d have sub: "set (reached d) \<subseteq> set (concat (map reached ?det))"
    by (simp only: set_concat set_map) blast
  have "survivors data
          = (reached r @ concat (map reached ?det))
            @ concat (map (\<lambda>(index, rootNode).
                             reached rootNode
                             @ concat (map reached (floating ?det index rootNode)))
                        (enumerate 1 rs))"
    by (simp add: survivors_def Let_def roots fl)
  with sub show ?thesis by auto
qed

lemma stripOne_subset: "stripOne cs str = Some rest \<Longrightarrow> set rest \<subseteq> set str"
proof (induction cs)
  case Nil
  then show ?case by simp
next
  case (Cons c cs)
  then show ?case
    by (auto split: if_splits dest: in_set_dropD)
qed

lemma stripAll_subset: "set (stripAll cs str) \<subseteq> set str"
proof (induction cs str rule: stripAll.induct)
  case (1 cs str)
  show ?case
  proof (cases "stripOne cs str")
    case None
    then show ?thesis by (simp add: stripAll.simps [of cs str])
  next
    case (Some rest)
    with "1.IH" [OF Some] stripOne_subset [OF Some] show ?thesis
      by (auto simp: stripAll.simps [of cs str])
  qed
qed

lemma matchSuffix_plain: "CHR ''('' \<notin> set rest \<Longrightarrow> matchSuffix rest = None"
proof -
  assume plain: "CHR ''('' \<notin> set rest"
  show ?thesis
  proof (cases "stripAll whiteSpace rest")
    case Nil
    then show ?thesis by (simp add: matchSuffix_def)
  next
    case (Cons ch afterOpen)
    with stripAll_subset [of whiteSpace rest] have "ch \<in> set rest" by auto
    with plain have "ch \<noteq> CHR ''(''" by auto
    with Cons show ?thesis by (simp add: matchSuffix_def)
  qed
qed

lemma matchLazy_plain: "CHR ''('' \<notin> set rest \<Longrightarrow> matchLazy group1 rest = None"
proof (induction rest arbitrary: group1)
  case Nil
  then show ?case
    by (simp add: matchLazy.simps [of group1 "[]"] matchSuffix_plain)
next
  case (Cons ch rest)
  from Cons.prems have "CHR ''('' \<notin> set rest" by simp
  from Cons.IH [OF this] Cons.prems show ?case
    by (simp add: matchLazy.simps [of group1 "ch # rest"] matchSuffix_plain)
qed

text \<open>A title without an opening parenthesis is a name without a unit.\<close>

lemma splitTitle_plain: "CHR ''('' \<notin> set title \<Longrightarrow> splitTitle title = (title, None)"
  by (cases title) (simp_all add: splitTitle_def unitMatch_def matchLazy_plain)

definition nestedFloating :: "KPINode list" where
  "nestedFloating =
     [KPINode ''ebitda'' ''EBITDA'' None None None None None
        (Some [KPINode ''sales'' ''Sales'' None None None None None
                 (Some [KPINode ''a'' ''Revenue'' None (Some ''$'') None None None None
                          (Some True) None None (Some (300, 40))])
                 None None None None])
        None None None None]"



definition revenueForest :: "KPINode list" where
  "revenueForest = [KPINode ''a'' ''Revenue'' None (Some ''$'') None None None None None None None None]"

definition floatingRevenue :: "KPINode list" where
  "floatingRevenue =
     [KPINode ''ebitda'' ''EBITDA'' None None None None None
        (Some [KPINode ''memo'' ''Memo'' None None None None None None (Some True) None None
                 (Some (10, 20))])
        None None None None,
      KPINode ''a'' ''Revenue'' None (Some ''$'') None None None None (Some True) None None
        (Some (300, 40))]"

definition laterRoot :: "KPINode list" where
  "laterRoot =
     [leaf ''ebitda'' ''EBITDA'',
      KPINode ''cost'' ''Cost'' None None None None None
        (Some [KPINode ''a'' ''Revenue'' None (Some ''$'') None None None
                 (Some [leaf ''price'' ''Price''])
                 (Some True) None None (Some (300, 40))])
        None None None None]"

text \<open>
  The three forests after the round trip. In \<open>floatingRevenue\<close> the detached child
  \<open>memo\<close> of the first root is not kept: on the first sheet the topics of the detached
  top-level nodes take the place of the detached group of the root topic.
\<close>

lemma roundtrip_revenueForest:
  "importFromXMind (exportToXMind xmindIds revenueForest)
     = Inr [KPINode ''a'' ''Revenue'' None (Some ''$'') None None None None (Some False)
              None None None]"
  by (simp add: revenueForest_def importFromXMind_def exportToXMind_def exportSheets_def
      exportSheet_def truthy_def enumerate_eq_zip upt_rec kpiNodeToXMindTopic.simps
      topicTitle_def collectRelationships_def relationshipRecords_def importSheets_def
      sheetNodes_def sheetRecords_def xmindTopicToKPINode.simps attachedOf_def detachedOf_def
      splitTitle_Revenue Let_def)

lemma roundtrip_floatingRevenue:
  "importFromXMind (exportToXMind xmindIds floatingRevenue)
     = Inr [KPINode ''ebitda'' ''EBITDA'' None None None None None None (Some False)
              None None None,
            KPINode ''a'' ''Revenue'' None (Some ''$'') None None None None (Some True)
              None None (Some (300, 40))]"
proof -
  have plain: "splitTitle ''EBITDA'' = (''EBITDA'', None)"
    by (simp add: splitTitle_plain)
  show ?thesis
    by (simp add: floatingRevenue_def importFromXMind_def exportToXMind_def exportSheets_def
        exportSheet_def setDetached_def truthy_def enumerate_eq_zip upt_rec
        kpiNodeToXMindTopic.simps topicTitle_def collectRelationships_def
        relationshipRecords_def importSheets_def sheetNodes_def sheetRecords_def
        xmindTopicToKPINode.simps attachedOf_def detachedOf_def splitTitle_Revenue plain Let_def)
qed

lemma roundtrip_laterRoot:
  "importFromXMind (exportToXMind xmindIds laterRoot)
     = Inr [KPINode ''ebitda'' ''EBITDA'' None None None None None None (Some False)
              None None None,
            KPINode ''cost'' ''Cost'' None None None None None None (Some False)
              None None None,
            KPINode ''a'' ''Revenue'' None (Some ''$'') None None None
              (Some [KPINode ''price'' ''Price'' None None None None None None (Some False)
                       None None None])
              (Some True) None None (Some (300, 40))]"
proof -
  have plain: "splitTitle ''EBITDA'' = (''EBITDA'', None)" "splitTitle ''Cost'' = (''Cost'', None)"
    "splitTitle ''Price'' = (''Price'', None)"
    by (simp_all add: splitTitle_plain)
  show ?thesis
    by (simp add: laterRoot_def leaf_def importFromXMind_def exportToXMind_def exportSheets_def
        exportSheet_def setDetached_def truthy_def enumerate_eq_zip upt_rec
        kpiNodeToXMindTopic.simps topicTitle_def collectRelationships_def
        relationshipRecords_def importSheets_def sheetNodes_def sheetRecords_def
        xmindTopicToKPINode.simps attachedOf_def detachedOf_def splitTitle_Revenue plain Let_def)
qed



subsection \<open>Link creation: forward and reverse edges\<close>

lemma with_children_sel:
  "id_node (with_children n cs) = id_node n"
  "children (with_children n cs) = cs"
  "relationships (with_children n cs) = relationships n"
  by (simp_all add: with_children_def)

lemma with_relationships_sel:
  "id_node (with_relationships n rs) = id_node n"
  "children (with_relationships n rs) = children n"
  "relationships (with_relationships n rs) = rs"
  by (simp_all add: with_relationships_def)

lemma findNodeById_updateNode_source:
  "findNodeById src (updateNode src e forest)
     = map_option (\<lambda>n. with_relationships n (Some (arrayOf (relationships n) @ [e])))
         (findNodeById src forest)"
proof (induction src e forest rule: updateNode.induct)
  case (1 sourceId edge)
  show ?case by simp
next
  case (2 sourceId edge node nodes)
  show ?case
  proof (cases "id_node node = sourceId")
    case True
    then show ?thesis
      by (simp add: with_relationships_sel arrayOf_def)
  next
    case False
    show ?thesis
    proof (cases "children node")
      case None
      with False "2.IH"(2) show ?thesis by simp
    next
      case (Some cs)
      with False "2.IH" show ?thesis
        by (cases "findNodeById sourceId cs") (simp_all add: with_children_sel)
    qed
  qed
qed

lemma findNodeById_updateNode_other:
  "i \<noteq> src \<Longrightarrow>
   map_option relationships (findNodeById i (updateNode src e forest))
     = map_option relationships (findNodeById i forest)"
proof (induction src e forest rule: updateNode.induct)
  case (1 sourceId edge)
  show ?case by simp
next
  case (2 sourceId edge node nodes)
  show ?case
  proof (cases "id_node node = sourceId")
    case True
    with "2.prems" "2.IH"(2) show ?thesis
      by (simp add: with_relationships_sel split: option.splits)
  next
    case False
    show ?thesis
    proof (cases "children node")
      case None
      with False "2.prems" "2.IH"(2) show ?thesis by simp
    next
      case (Some cs)
      from "2.IH"(1) [OF False Some "2.prems"]
      have sub: "map_option relationships (findNodeById i (updateNode sourceId edge cs))
                   = map_option relationships (findNodeById i cs)" .
      show ?thesis
      proof (cases "id_node node = i")
        case True
        with False Some show ?thesis by (simp add: with_children_sel)
      next
        case ni: False
        show ?thesis
        proof (cases "findNodeById i cs")
          case None
          with sub have "findNodeById i (updateNode sourceId edge cs) = None" by simp
          with None ni False Some "2.prems" "2.IH"(2) show ?thesis
            by (simp add: with_children_sel)
        next
          case (Some found)
          with sub obtain found' where
            "findNodeById i (updateNode sourceId edge cs) = Some found'"
            "relationships found' = relationships found"
            by (cases "findNodeById i (updateNode sourceId edge cs)") auto
          with Some ni False \<open>children node = Some cs\<close> show ?thesis
            by (simp add: with_children_sel)
        qed
      qed
    qed
  qed
qed

lemma createLink_success:
  assumes "fst (createLink linkId target lbl s)"
  shows "\<exists>src sourceNode.
           linkSourceId s = Some src \<and> src \<noteq> target
           \<and> findNodeById src (treeData s) = Some sourceNode
           \<and> findNodeById src (treeData (snd (createLink linkId target lbl s)))
               = Some (with_relationships sourceNode
                         (Some (arrayOf (relationships sourceNode)
                                @ [\<lparr>id_rel = linkId, targetId = target, label = lbl\<rparr>])))
           \<and> (\<forall>i. i \<noteq> src \<longrightarrow>
                 map_option relationships
                   (findNodeById i (treeData (snd (createLink linkId target lbl s))))
                 = map_option relationships (findNodeById i (treeData s)))"
proof -
  from assms obtain src where src: "linkSourceId s = Some src"
    by (cases "linkSourceId s") (simp_all add: createLink_def)
  with assms have ne: "src \<noteq> []" "src \<noteq> target"
    by (auto simp: createLink_def split: if_splits)
  with assms src obtain sourceNode where found: "findNodeById src (treeData s) = Some sourceNode"
    by (cases "findNodeById src (treeData s)") (simp_all add: createLink_def)
  with assms src ne have tree:
    "treeData (snd (createLink linkId target lbl s))
       = updateNode src \<lparr>id_rel = linkId, targetId = target, label = lbl\<rparr> (treeData s)"
    by (simp add: createLink_def cancelLinkMode_def deepClone_def split: if_splits)
  show ?thesis
    using src ne(2) found
    by (simp add: tree findNodeById_updateNode_source findNodeById_updateNode_other)
qed

lemma index_map_snoc:
  "fold (\<lambda>(k, v) m. m(key v \<mapsto> k)) (enumerate 0 (xs @ [x])) Map.empty
     = (fold (\<lambda>(k, v) m. m(key v \<mapsto> k)) (enumerate 0 xs) Map.empty)(key x \<mapsto> length xs)"
  by (simp add: enumerate_append_eq)

lemma index_map_sound:
  "fold (\<lambda>(k, v) m. m(key v \<mapsto> k)) (enumerate 0 xs) Map.empty i = Some k
     \<Longrightarrow> k < length xs \<and> key (xs ! k) = i"
proof (induction xs rule: rev_induct)
  case Nil
  then show ?case by simp
next
  case (snoc x xs)
  show ?case
  proof (cases "i = key x")
    case True
    with snoc.prems show ?thesis
      by (simp only: index_map_snoc) (auto simp: nth_append)
  next
    case False
    with snoc.prems
    have "fold (\<lambda>(k, v) m. m(key v \<mapsto> k)) (enumerate 0 xs) Map.empty i = Some k"
      by (simp only: index_map_snoc) simp
    from snoc.IH [OF this] show ?thesis
      by (simp add: nth_append)
  qed
qed

lemma index_map_complete:
  "i \<in> key ` set xs
     \<Longrightarrow> \<exists>k. fold (\<lambda>(k, v) m. m(key v \<mapsto> k)) (enumerate 0 xs) Map.empty i = Some k"
proof (induction xs rule: rev_induct)
  case Nil
  then show ?case by simp
next
  case (snoc x xs)
  show ?case
  proof (cases "i = key x")
    case True
    then show ?thesis
      by (simp only: index_map_snoc) simp
  next
    case False
    with snoc.prems have "i \<in> key ` set xs" by auto
    from snoc.IH [OF this] obtain k
      where "fold (\<lambda>(k, v) m. m(key v \<mapsto> k)) (enumerate 0 xs) Map.empty i = Some k" ..
    with False have "fold (\<lambda>(k, v) m. m(key v \<mapsto> k)) (enumerate 0 (xs @ [x])) Map.empty i
                       = Some k"
      by (simp only: index_map_snoc) simp
    then show ?thesis ..
  qed
qed

lemma buildNodeIdMap_sound:
  "buildNodeIdMap forest i = Some k \<Longrightarrow>
     k < length (nodesOf forest) \<and> id_node (nodesOf forest ! k) = i"
  unfolding buildNodeIdMap_def by (rule index_map_sound)

lemma buildNodeIdMap_complete:
  "i \<in> id_node ` set (nodesOf forest) \<Longrightarrow> \<exists>k. buildNodeIdMap forest i = Some k"
  unfolding buildNodeIdMap_def by (rule index_map_complete)

lemma ensureArray_length: "length (ensureArray k heap) = length heap"
  by (simp add: ensureArray_def)

lemma arrayOf_Some: "arrayOf (Some vs) = vs"
  by (simp add: arrayOf_def)

lemma ensureArray_nth: "arrayOf (ensureArray k heap ! j) = arrayOf (heap ! j)"
proof (cases "k < length heap")
  case True
  then show ?thesis by (cases "j = k") (simp_all add: ensureArray_def arrayOf_Some)
next
  case False
  then have "heap[k := Some (arrayOf (heap ! k))] = heap"
    by (intro list_update_beyond) simp
  then show ?thesis by (simp add: ensureArray_def)
qed

lemma pushEdge_length: "length (pushEdge k edge heap) = length heap"
  by (simp add: pushEdge_def)

lemma pushEdge_nth:
  "arrayOf (pushEdge k edge heap ! j)
     = (if j = k \<and> k < length heap then arrayOf (heap ! k) @ [edge] else arrayOf (heap ! j))"
proof (cases "k < length heap")
  case True
  then show ?thesis by (cases "j = k") (simp_all add: pushEdge_def arrayOf_Some)
next
  case False
  then have "heap[k := Some (arrayOf (heap ! k) @ [edge])] = heap"
    by (intro list_update_beyond) simp
  with False show ?thesis by (simp add: pushEdge_def)
qed

lemma pushEdge_mono: "set (arrayOf (heap ! j)) \<subseteq> set (arrayOf (pushEdge k edge heap ! j))"
  by (auto simp: pushEdge_nth)

lemma pushEdge_pushed: "k < length heap \<Longrightarrow> edge \<in> set (arrayOf (pushEdge k edge heap ! k))"
  by (simp add: pushEdge_nth)


lemma processRelationship_length:
  "length (processRelationship nodeMap heap rel) = length heap"
  by (simp add: processRelationship_def Let_def ensureArray_length pushEdge_length
      split: option.splits)

lemma processRelationship_mono:
  "set (arrayOf (heap ! j)) \<subseteq> set (arrayOf (processRelationship nodeMap heap rel ! j))"
proof (cases "nodeMap (end1Id rel)")
  case None
  then show ?thesis by (simp add: processRelationship_def)
next
  case (Some src)
  show ?thesis
  proof (cases "nodeMap (end2Id rel)")
    case None
    with Some show ?thesis by (simp add: processRelationship_def)
  next
    case tgt: (Some tgt)
    define heap1 where "heap1 = pushEdge src (forwardEdge rel) (ensureArray src heap)"
    define heap2 where "heap2 = ensureArray tgt heap1"
    have a: "set (arrayOf (heap ! j)) \<subseteq> set (arrayOf (heap1 ! j))"
      unfolding heap1_def using pushEdge_mono [of "ensureArray src heap" j src]
      by (simp add: ensureArray_length ensureArray_nth)
    have b: "arrayOf (heap2 ! j) = arrayOf (heap1 ! j)"
      by (simp add: heap2_def ensureArray_length ensureArray_nth)
    have c: "set (arrayOf (heap2 ! j)) \<subseteq> set (arrayOf (pushEdge tgt e heap2 ! j))" for e
      by (rule pushEdge_mono)
    show ?thesis
    proof (cases "list_ex (\<lambda>r. targetId r = end1Id rel) (arrayOf (heap2 ! tgt))")
      case True
      with Some tgt have "processRelationship nodeMap heap rel = heap2"
        by (simp add: processRelationship_def Let_def heap2_def heap1_def)
      with a b show ?thesis by simp
    next
      case False
      with Some tgt obtain e where "processRelationship nodeMap heap rel = pushEdge tgt e heap2"
        by (simp add: processRelationship_def Let_def heap2_def heap1_def)
      with a b c [of e] show ?thesis by auto
    qed
  qed
qed

lemma processRelationship_edges:
  assumes "nodeMap (end1Id rel) = Some src" and "nodeMap (end2Id rel) = Some tgt"
    and "src < length heap" and "tgt < length heap"
  shows "(\<exists>r \<in> set (arrayOf (processRelationship nodeMap heap rel ! src)).
            id_rel r = id_xrel rel \<and> targetId r = end2Id rel)
       \<and> (\<exists>r \<in> set (arrayOf (processRelationship nodeMap heap rel ! tgt)).
            targetId r = end1Id rel)"
proof -
  define fwd where "fwd = forwardEdge rel"
  define heap1 where "heap1 = pushEdge src fwd (ensureArray src heap)"
  define heap2 where "heap2 = ensureArray tgt heap1"
  define rev where "rev = reverseEdge rel"
  have len: "length heap2 = length heap"
    by (simp add: heap2_def heap1_def ensureArray_length ensureArray_nth pushEdge_length)
  have "fwd \<in> set (arrayOf (heap1 ! src))"
    unfolding heap1_def using assms(3) by (intro pushEdge_pushed) (simp add: ensureArray_length ensureArray_nth)
  then have fwd2: "fwd \<in> set (arrayOf (heap2 ! src))"
    by (simp add: heap2_def ensureArray_length ensureArray_nth)
  show ?thesis
  proof (cases "list_ex (\<lambda>r. targetId r = end1Id rel) (arrayOf (heap2 ! tgt))")
    case True
    with assms(1,2) have "processRelationship nodeMap heap rel = heap2"
      by (simp add: processRelationship_def Let_def heap2_def heap1_def fwd_def)
    moreover have "id_rel fwd = id_xrel rel \<and> targetId fwd = end2Id rel"
      by (simp add: fwd_def forwardEdge_def)
    moreover from True obtain r where "r \<in> set (arrayOf (heap2 ! tgt))" "targetId r = end1Id rel"
      by (auto simp: list_ex_iff)
    ultimately show ?thesis
      using fwd2 by blast
  next
    case False
    with assms(1,2) have res: "processRelationship nodeMap heap rel = pushEdge tgt rev heap2"
      by (simp add: processRelationship_def Let_def heap2_def heap1_def fwd_def rev_def)
    from fwd2 pushEdge_mono [of heap2 src tgt rev]
    have "fwd \<in> set (arrayOf (pushEdge tgt rev heap2 ! src))" by auto
    moreover have "rev \<in> set (arrayOf (pushEdge tgt rev heap2 ! tgt))"
      using assms(4) len by (intro pushEdge_pushed) simp
    moreover have "id_rel fwd = id_xrel rel \<and> targetId fwd = end2Id rel"
      and "targetId rev = end1Id rel"
      by (simp_all add: fwd_def rev_def forwardEdge_def reverseEdge_def)
    ultimately show ?thesis
      unfolding res by blast
  qed
qed

lemma pushEdge_eq: "pushEdge k edge heap = heap[k := Some (arrayOf (heap ! k) @ [edge])]"
  by (simp add: pushEdge_def)

lemma ensureArray_pushEdge:
  "k < length heap \<Longrightarrow>
     ensureArray j (pushEdge k edge (ensureArray k heap))
       = (if j = k then heap[k := Some (arrayOf (heap ! k) @ [edge])]
          else heap[k := Some (arrayOf (heap ! k) @ [edge]), j := Some (arrayOf (heap ! j))])"
  by (simp add: ensureArray_def pushEdge_def arrayOf_Some list_update_swap [of k j])

text \<open>What one round of the loop does to the heap, for two different objects.\<close>

lemma processRelationship_step:
  assumes "nodeMap (end1Id rel) = Some src" and "nodeMap (end2Id rel) = Some tgt"
    and "src < length heap" and "tgt < length heap" and "src \<noteq> tgt"
  shows "processRelationship nodeMap heap rel
           = heap[src := Some (arrayOf (heap ! src) @ [forwardEdge rel]),
                  tgt := Some (if list_ex (\<lambda>r. targetId r = end1Id rel) (arrayOf (heap ! tgt))
                               then arrayOf (heap ! tgt)
                               else arrayOf (heap ! tgt) @ [reverseEdge rel])]"
proof -
  let ?h1 = "heap[src := Some (arrayOf (heap ! src) @ [forwardEdge rel])]"
  let ?h2 = "?h1[tgt := Some (arrayOf (heap ! tgt))]"
  define heap2 where
    "heap2 = ensureArray tgt (pushEdge src (forwardEdge rel) (ensureArray src heap))"
  have h2: "heap2 = ?h2"
    using assms(3,5) by (simp add: heap2_def ensureArray_pushEdge)
  have at: "arrayOf (heap2 ! tgt) = arrayOf (heap ! tgt)"
    using assms(4) by (simp add: h2 arrayOf_Some)
  have "processRelationship nodeMap heap rel
          = (if \<not> list_ex (\<lambda>r. targetId r = end1Id rel) (arrayOf (heap2 ! tgt))
             then pushEdge tgt (reverseEdge rel) heap2 else heap2)"
    using assms(1,2) by (simp add: processRelationship_def Let_def heap2_def)
  also have "\<dots> = (if \<not> list_ex (\<lambda>r. targetId r = end1Id rel) (arrayOf (heap ! tgt))
                   then heap2[tgt := Some (arrayOf (heap ! tgt) @ [reverseEdge rel])]
                   else heap2)"
    by (simp add: pushEdge_eq at)
  finally show ?thesis
    by (simp add: h2)
qed

text \<open>The same for a record from a node to itself: the forward edge is its own reverse.\<close>

lemma processRelationship_self:
  assumes "nodeMap (end1Id rel) = Some src" and "nodeMap (end2Id rel) = Some src"
    and "src < length heap" and "end1Id rel = end2Id rel"
  shows "processRelationship nodeMap heap rel
           = heap[src := Some (arrayOf (heap ! src) @ [forwardEdge rel])]"
proof -
  let ?h1 = "heap[src := Some (arrayOf (heap ! src) @ [forwardEdge rel])]"
  define heap2 where
    "heap2 = ensureArray src (pushEdge src (forwardEdge rel) (ensureArray src heap))"
  have h2: "heap2 = ?h1"
    using assms(3) by (simp add: heap2_def ensureArray_pushEdge)
  have "targetId (forwardEdge rel) = end1Id rel"
    using assms(4) by (simp add: forwardEdge_def)
  then have "list_ex (\<lambda>r. targetId r = end1Id rel) (arrayOf (heap2 ! src))"
    using assms(3) by (simp add: h2 arrayOf_Some list_ex_iff)
  moreover have "processRelationship nodeMap heap rel
          = (if \<not> list_ex (\<lambda>r. targetId r = end1Id rel) (arrayOf (heap2 ! src))
             then pushEdge src (reverseEdge rel) heap2 else heap2)"
    using assms(1,2) by (simp add: processRelationship_def Let_def heap2_def)
  ultimately show ?thesis
    by (simp add: h2)
qed

lemma foldl_processRelationship_length:
  "length (foldl (processRelationship nodeMap) heap rels) = length heap"
  by (induction rels arbitrary: heap) (simp_all add: processRelationship_length)

lemma foldl_processRelationship_mono:
  "set (arrayOf (heap ! j)) \<subseteq> set (arrayOf (foldl (processRelationship nodeMap) heap rels ! j))"
proof (induction rels arbitrary: heap)
  case Nil
  show ?case by simp
next
  case (Cons rel rels)
  from processRelationship_mono [of heap j nodeMap rel]
    Cons.IH [of "processRelationship nodeMap heap rel"]
  show ?case by simp
qed

lemma foldl_processRelationship_edges:
  assumes "rel \<in> set rels"
    and "nodeMap (end1Id rel) = Some src" and "nodeMap (end2Id rel) = Some tgt"
    and "src < length heap" and "tgt < length heap"
  shows "(\<exists>r \<in> set (arrayOf (foldl (processRelationship nodeMap) heap rels ! src)).
            id_rel r = id_xrel rel \<and> targetId r = end2Id rel)
       \<and> (\<exists>r \<in> set (arrayOf (foldl (processRelationship nodeMap) heap rels ! tgt)).
            targetId r = end1Id rel)"
  using assms(1,4,5)
proof (induction rels arbitrary: heap)
  case Nil
  then show ?case by simp
next
  case (Cons r rs)
  let ?heap1 = "processRelationship nodeMap heap r"
  show ?case
  proof (cases "rel = r")
    case True
    from processRelationship_edges [OF assms(2,3) Cons.prems(2,3)] True
    obtain e1 e2 where
      e1: "e1 \<in> set (arrayOf (?heap1 ! src))" "id_rel e1 = id_xrel rel" "targetId e1 = end2Id rel"
      and e2: "e2 \<in> set (arrayOf (?heap1 ! tgt))" "targetId e2 = end1Id rel"
      by blast
    from e1(1) foldl_processRelationship_mono [of ?heap1 src nodeMap rs]
    have "e1 \<in> set (arrayOf (foldl (processRelationship nodeMap) ?heap1 rs ! src))" by blast
    moreover from e2(1) foldl_processRelationship_mono [of ?heap1 tgt nodeMap rs]
    have "e2 \<in> set (arrayOf (foldl (processRelationship nodeMap) ?heap1 rs ! tgt))" by blast
    ultimately show ?thesis
      using e1(2,3) e2(2) by (simp only: foldl_Cons) blast
  next
    case False
    with Cons.prems(1) have "rel \<in> set rs" by simp
    moreover have "src < length ?heap1" "tgt < length ?heap1"
      using Cons.prems(2,3) by (simp_all add: processRelationship_length)
    ultimately show ?thesis
      using Cons.IH [of ?heap1] by (simp only: foldl_Cons)
  qed
qed

lemma length_nodesOf_Cons:
  "length (nodesOf (node # nodes)) = Suc (length (descendants node)) + length (nodesOf nodes)"
  by (simp add: descendants_def)

lemma storeRelationships_nodesOf:
  "length (nodesOf forest) \<le> length heap \<Longrightarrow>
     map relationships (nodesOf (storeRelationships heap forest)) = take (length (nodesOf forest)) heap
     \<and> map id_node (nodesOf (storeRelationships heap forest)) = map id_node (nodesOf forest)"
proof (induction heap forest rule: storeRelationships.induct)
  case (1 heap)
  show ?case by simp
next
  case (2 heap node nodes)
  let ?d = "length (descendants node)"
  let ?rest = "drop (Suc ?d) heap"
  from "2.prems" have len: "Suc ?d + length (nodesOf nodes) \<le> length heap"
    by (simp only: length_nodesOf_Cons)
  then obtain h hs where heap: "heap = h # hs" by (cases heap) auto
  from len have "length (nodesOf nodes) \<le> length ?rest" by simp
  from "2.IH"(2) [OF this]
  have rest: "map relationships (nodesOf (storeRelationships ?rest nodes))
                = take (length (nodesOf nodes)) ?rest"
    "map id_node (nodesOf (storeRelationships ?rest nodes)) = map id_node (nodesOf nodes)"
    by simp_all
  have split: "take (Suc ?d + length (nodesOf nodes)) heap
                 = h # take ?d hs @ take (length (nodesOf nodes)) (drop ?d hs)"
    by (simp add: heap take_add)
  show ?case
  proof (cases "children node")
    case None
    then have d0: "?d = 0" by (simp add: descendants_def)
    with None rest heap show ?thesis
      by (simp add: descendants_def)
  next
    case (Some cs)
    then have d: "?d = length (nodesOf cs)" by (simp add: descendants_def)
    with len heap have "length (nodesOf cs) \<le> length (tl heap)" by simp
    from "2.IH"(1) [OF Some this]
    have sub: "map relationships (nodesOf (storeRelationships hs cs)) = take ?d hs"
      "map id_node (nodesOf (storeRelationships hs cs)) = map id_node (nodesOf cs)"
      by (simp_all add: heap d)
    from Some rest sub heap d show ?thesis
      by (simp add: take_add descendants_def)
  qed
qed


lemma index_map_keys:
  "fold (\<lambda>(k, v) m. m(key v \<mapsto> k)) (enumerate n xs) m
     = fold (\<lambda>(k, i) m. m(i \<mapsto> k)) (enumerate n (map key xs)) m"
  by (induction xs arbitrary: n m) simp_all

lemma buildNodeIdMap_ids:
  "map id_node (nodesOf forest) = map id_node (nodesOf forest')
     \<Longrightarrow> buildNodeIdMap forest = buildNodeIdMap forest'"
  unfolding buildNodeIdMap_def by (simp only: index_map_keys [of id_node])

lemma storeRelationships_ids:
  "map id_node (nodesOf (storeRelationships heap forest)) = map id_node (nodesOf forest)"
proof -
  have "map id_node (nodesOf f) = map fst (map fields (nodesOf f))" for f
    by (simp add: fields_def)
  then show ?thesis by (simp only: storeRelationships_fields)
qed

lemma storeRelationships_length:
  "length (nodesOf (storeRelationships heap forest)) = length (nodesOf forest)"
  using storeRelationships_ids [of heap forest] by (metis length_map)

lemma storeRelationships_again:
  "storeRelationships heap (storeRelationships heap' forest) = storeRelationships heap forest"
proof (induction heap forest arbitrary: heap' rule: storeRelationships.induct)
  case (1 heap)
  show ?case by simp
next
  case (2 heap node nodes)
  have d: "length (descendants
             (KPINode (id_node node) (name node) (icon node) (unit node) (esg node) (scope node)
                (category node)
                (case children node of
                   None \<Rightarrow> None
                 | Some cs \<Rightarrow> Some (storeRelationships (tl heap') cs))
                (isDetached node) (hd heap') (markers node) (position node)))
           = length (descendants node)"
    by (cases "children node") (simp_all add: descendants_def storeRelationships_length)
  show ?case
  proof (cases "children node")
    case None
    with d "2.IH"(2) show ?thesis by simp
  next
    case (Some cs)
    with d "2.IH" show ?thesis by simp
  qed
qed

lemma buildNodeIdMap_storeRelationships:
  "buildNodeIdMap (storeRelationships heap forest) = buildNodeIdMap forest"
  by (rule buildNodeIdMap_ids) (rule storeRelationships_ids)

lemma relationships_stored:
  assumes "length heap = length (nodesOf forest)" and "k < length (nodesOf forest)"
  shows "relationships (nodesOf (storeRelationships heap forest) ! k) = heap ! k"
proof -
  from storeRelationships_nodesOf [of forest heap] assms(1)
  have "map relationships (nodesOf (storeRelationships heap forest)) = heap" by simp
  moreover have "k < length (nodesOf (storeRelationships heap forest))"
    using assms(2) by (simp add: storeRelationships_length)
  ultimately show ?thesis by (metis nth_map)
qed

lemma processRelationships_append:
  "processRelationships forest (rels @ [rel])
     = processRelationships (processRelationships forest rels) [rel]"
proof -
  let ?m = "buildNodeIdMap forest"
  let ?h = "foldl (processRelationship ?m) (map relationships (nodesOf forest)) rels"
  have len: "length ?h = length (nodesOf forest)"
    by (simp add: foldl_processRelationship_length)
  have mid: "processRelationships forest rels = storeRelationships ?h forest"
    by (simp add: processRelationships_def)
  from storeRelationships_nodesOf [of forest ?h] len
  have heap: "map relationships (nodesOf (storeRelationships ?h forest)) = ?h" by simp
  show ?thesis
    by (simp add: processRelationships_def heap buildNodeIdMap_storeRelationships
        storeRelationships_again)
qed

text \<open>The \<open>relationships\<close> field of the object of an id after one record.\<close>

lemma mappedNode_processed:
  "map_option relationships (mappedNode (processRelationships forest [rel]) i)
     = map_option
         (\<lambda>k. processRelationship (buildNodeIdMap forest) (map relationships (nodesOf forest)) rel
                ! k)
         (buildNodeIdMap forest i)"
proof (cases "buildNodeIdMap forest i")
  case None
  then show ?thesis
    by (simp add: mappedNode_def processRelationships_def buildNodeIdMap_storeRelationships)
next
  case (Some k)
  from buildNodeIdMap_sound [OF Some] have k: "k < length (nodesOf forest)" by simp
  have "length (processRelationship (buildNodeIdMap forest) (map relationships (nodesOf forest)) rel)
          = length (nodesOf forest)"
    by (simp add: processRelationship_length)
  from relationships_stored [OF this k] Some show ?thesis
    by (simp add: mappedNode_def processRelationships_def buildNodeIdMap_storeRelationships)
qed

lemma mappedNode_found:
  assumes "mappedNode forest i = Some n"
  obtains k where "buildNodeIdMap forest i = Some k" and "k < length (nodesOf forest)"
    and "id_node (nodesOf forest ! k) = i" and "n = nodesOf forest ! k"
    and "map relationships (nodesOf forest) ! k = relationships n"
proof -
  from assms obtain k where k: "buildNodeIdMap forest i = Some k" "n = nodesOf forest ! k"
    by (auto simp: mappedNode_def)
  from buildNodeIdMap_sound [OF k(1)] have "k < length (nodesOf forest)"
    "id_node (nodesOf forest ! k) = i" by simp_all
  with k that show ?thesis by simp
qed

lemma processRelationships_record:
  assumes "mappedNode forest (end1Id rel) = Some sourceNode"
    and "mappedNode forest (end2Id rel) = Some targetNode"
  shows "map_option relationships (mappedNode (processRelationships forest [rel]) (end1Id rel))
           = Some (Some (arrayOf (relationships sourceNode) @ [forwardEdge rel]))"
    and "end1Id rel \<noteq> end2Id rel \<Longrightarrow>
         map_option relationships (mappedNode (processRelationships forest [rel]) (end2Id rel))
           = Some (Some (if list_ex (\<lambda>r. targetId r = end1Id rel)
                              (arrayOf (relationships targetNode))
                         then arrayOf (relationships targetNode)
                         else arrayOf (relationships targetNode) @ [reverseEdge rel]))"
    and "i \<noteq> end1Id rel \<Longrightarrow> i \<noteq> end2Id rel \<Longrightarrow>
         map_option relationships (mappedNode (processRelationships forest [rel]) i)
           = map_option relationships (mappedNode forest i)"
proof -
  let ?m = "buildNodeIdMap forest"
  let ?h = "map relationships (nodesOf forest)"
  from assms(1) obtain s where s: "?m (end1Id rel) = Some s" "s < length (nodesOf forest)"
    "id_node (nodesOf forest ! s) = end1Id rel" "?h ! s = relationships sourceNode"
    by (rule mappedNode_found)
  from assms(2) obtain t where t: "?m (end2Id rel) = Some t" "t < length (nodesOf forest)"
    "id_node (nodesOf forest ! t) = end2Id rel" "?h ! t = relationships targetNode"
    by (rule mappedNode_found)
  have lens: "s < length ?h" "t < length ?h" using s(2) t(2) by simp_all
  have same: "s = t \<longleftrightarrow> end1Id rel = end2Id rel"
    using s(1,3) t(1,3) by auto
  show "map_option relationships (mappedNode (processRelationships forest [rel]) (end1Id rel))
           = Some (Some (arrayOf (relationships sourceNode) @ [forwardEdge rel]))"
  proof (cases "s = t")
    case True
    with same have e: "end1Id rel = end2Id rel" by simp
    from t(1) True have "?m (end2Id rel) = Some s" by simp
    from processRelationship_self [OF s(1) this lens(1) e] s(1,4) lens(1) show ?thesis
      by (simp only: mappedNode_processed) simp
  next
    case False
    from processRelationship_step [OF s(1) t(1) lens False] s(1,4) lens False show ?thesis
      by (simp only: mappedNode_processed) simp
  qed
  show "map_option relationships (mappedNode (processRelationships forest [rel]) (end2Id rel))
           = Some (Some (if list_ex (\<lambda>r. targetId r = end1Id rel)
                              (arrayOf (relationships targetNode))
                         then arrayOf (relationships targetNode)
                         else arrayOf (relationships targetNode) @ [reverseEdge rel]))"
    if "end1Id rel \<noteq> end2Id rel"
  proof -
    from that same have ne: "s \<noteq> t" by simp
    from processRelationship_step [OF s(1) t(1) lens ne] t(1,4) lens show ?thesis
      by (simp only: mappedNode_processed) simp
  qed
  show "map_option relationships (mappedNode (processRelationships forest [rel]) i)
           = map_option relationships (mappedNode forest i)"
    if "i \<noteq> end1Id rel" "i \<noteq> end2Id rel"
  proof (cases "?m i")
    case None
    then show ?thesis by (simp only: mappedNode_processed) (simp add: mappedNode_def)
  next
    case (Some k)
    from buildNodeIdMap_sound [OF Some] have k: "k < length (nodesOf forest)"
      "id_node (nodesOf forest ! k) = i" by simp_all
    with that s(3) t(3) have ne: "k \<noteq> s" "k \<noteq> t" by auto
    have "processRelationship ?m ?h rel ! k = ?h ! k"
    proof (cases "s = t")
      case True
      with same have e: "end1Id rel = end2Id rel" by simp
      from t(1) True have "?m (end2Id rel) = Some s" by simp
      from processRelationship_self [OF s(1) this lens(1) e] ne show ?thesis by simp
    next
      case False
      from processRelationship_step [OF s(1) t(1) lens False] ne show ?thesis by simp
    qed
    with Some k(1) show ?thesis
      by (simp only: mappedNode_processed) (simp add: mappedNode_def)
  qed
qed

lemma processRelationships_edges:
  assumes "rel \<in> set rels"
    and "end1Id rel \<in> id_node ` set (nodesOf forest)"
    and "end2Id rel \<in> id_node ` set (nodesOf forest)"
  shows "\<exists>src \<in> set (nodesOf (processRelationships forest rels)).
         \<exists>tgt \<in> set (nodesOf (processRelationships forest rels)).
           id_node src = end1Id rel \<and> id_node tgt = end2Id rel
           \<and> (\<exists>r \<in> set (arrayOf (relationships src)).
                 id_rel r = id_xrel rel \<and> targetId r = end2Id rel)
           \<and> (\<exists>r \<in> set (arrayOf (relationships tgt)). targetId r = end1Id rel)"
proof -
  let ?map = "buildNodeIdMap forest"
  let ?initial = "map relationships (nodesOf forest)"
  let ?heap = "foldl (processRelationship ?map) ?initial rels"
  let ?out = "nodesOf (processRelationships forest rels)"
  from buildNodeIdMap_complete [OF assms(2)] obtain s where s: "?map (end1Id rel) = Some s" ..
  from buildNodeIdMap_complete [OF assms(3)] obtain t where t: "?map (end2Id rel) = Some t" ..
  from buildNodeIdMap_sound [OF s] have s': "s < length (nodesOf forest)"
    "id_node (nodesOf forest ! s) = end1Id rel" by simp_all
  from buildNodeIdMap_sound [OF t] have t': "t < length (nodesOf forest)"
    "id_node (nodesOf forest ! t) = end2Id rel" by simp_all
  have len: "length ?heap = length (nodesOf forest)"
    by (simp add: foldl_processRelationship_length)
  from storeRelationships_nodesOf [of forest ?heap] len
  have out: "map relationships ?out = ?heap" "map id_node ?out = map id_node (nodesOf forest)"
    by (simp_all add: processRelationships_def)
  from out(2) have outlen: "length ?out = length (nodesOf forest)"
    by (metis length_map)
  have rs: "relationships (?out ! s) = ?heap ! s" "relationships (?out ! t) = ?heap ! t"
    using out(1) s'(1) t'(1) outlen by (metis nth_map)+
  have ids: "id_node (?out ! s) = end1Id rel" "id_node (?out ! t) = end2Id rel"
    using out(2) s' t' outlen by (metis nth_map)+
  have mem: "?out ! s \<in> set ?out" "?out ! t \<in> set ?out"
    using s'(1) t'(1) outlen by simp_all
  from foldl_processRelationship_edges [OF assms(1) s t, where heap = ?initial] s'(1) t'(1)
  have "(\<exists>r \<in> set (arrayOf (?heap ! s)). id_rel r = id_xrel rel \<and> targetId r = end2Id rel)
       \<and> (\<exists>r \<in> set (arrayOf (?heap ! t)). targetId r = end1Id rel)"
    by simp
  with rs ids mem show ?thesis by metis
qed

definition linkPair :: "KPINode list" where
  "linkPair = [leaf ''a'' ''Availability'', leaf ''b'' ''Breakdowns'']"

text \<open>
  Claim C3, as stated, says that after every successful link creation from \<open>s\<close> to
  \<open>t\<close> a reverse edge is stored on the target node. \<open>createLink\<close> from \<open>a\<close> to
  \<open>b\<close> succeeds and stores the forward edge on \<open>a\<close>; the node \<open>b\<close> still has no
  \<open>relationships\<close> field.
\<close>

theorem createLink_stores_no_reverse_edge:
  "fst (createLink ''link-1'' ''b'' (Some ''Depends on'')
          (startLinkMode ''a'' ''Availability'' (initStore linkPair moduleState)))
   \<and> treeData (snd (createLink ''link-1'' ''b'' (Some ''Depends on'')
          (startLinkMode ''a'' ''Availability'' (initStore linkPair moduleState))))
       = [with_relationships (leaf ''a'' ''Availability'')
            (Some [\<lparr>id_rel = ''link-1'', targetId = ''b'', label = Some ''Depends on''\<rparr>]),
          leaf ''b'' ''Breakdowns'']
   \<and> relationships (leaf ''b'' ''Breakdowns'') = None"
  by (simp add: linkPair_def example_defs createLink_def startLinkMode_def cancelLinkMode_def)

lemma mappedNode_sound:
  "mappedNode forest i = Some n \<Longrightarrow> n \<in> set (nodesOf forest) \<and> id_node n = i"
  by (erule mappedNode_found) simp

lemma mappedNode_complete:
  "i \<in> id_node ` set (nodesOf forest) \<Longrightarrow> \<exists>n. mappedNode forest i = Some n"
  using buildNodeIdMap_complete [of i forest] by (auto simp: mappedNode_def)

definition importedPair :: "KPINode list" where
  "importedPair =
     [KPINode ''t1'' ''Availability'' None (Some ''%'') None None None
        (Some [KPINode ''t2'' ''Breakdowns'' None None None None None None (Some False)
                 None None None])
        (Some False) None None None,
      KPINode ''t3'' ''Spares'' None None None None None None (Some True) None None
        (Some (0, 120))]"

definition dependsOn :: XMindRelationship where
  "dependsOn = \<lparr>id_xrel = ''rel-1'', end1Id = ''t2'', end2Id = ''t3'',
                 title_xrel = Some ''Depends on'', attributedTitle_xrel = Some [''Depends on'']\<rparr>"

definition neededBy :: XMindRelationship where
  "neededBy = \<lparr>id_xrel = ''rel-2'', end1Id = ''t3'', end2Id = ''t2'',
                title_xrel = Some ''Needed by'', attributedTitle_xrel = None\<rparr>"

lemma processRelationships_importedPair:
  "processRelationships importedPair [dependsOn] =
     [KPINode ''t1'' ''Availability'' None (Some ''%'') None None None
        (Some [KPINode ''t2'' ''Breakdowns'' None None None None None None (Some False)
                 (Some [\<lparr>id_rel = ''rel-1'', targetId = ''t3'', label = Some ''Depends on''\<rparr>])
                 None None])
        (Some False) None None None,
      KPINode ''t3'' ''Spares'' None None None None None None (Some True)
        (Some [\<lparr>id_rel = ''rel-1-reverse'', targetId = ''t2'',
                 label = Some (backArrow @ '' Depends on'')\<rparr>])
        None (Some (0, 120))]"
  by (simp add: processRelationships_def importedPair_def dependsOn_def buildNodeIdMap_def
      processRelationship_def forwardEdge_def reverseEdge_def relationshipLabel_def
      pushEdge_def ensureArray_def arrayOf_def descendants_def enumerate_eq_zip upt_rec)

text \<open>
  Claim C3, amended. A successful \<open>createLink\<close> from \<open>s\<close> to \<open>t\<close> appends the forward
  edge to the relationship list of the source node and leaves the relationship list of
  the node of every other id, the target included, as it was: it stores no reverse edge.
  The reverse edge is stored by the import. \<open>processRelationships\<close> handles the records
  one after the other: a list of records that ends in \<open>rel\<close> is handled as the list
  without \<open>rel\<close> and then \<open>rel\<close> alone. For one record \<open>rel\<close> of id \<open>id\<close> from
  \<open>s\<close> to \<open>t\<close>, the id map of the forest holding a node for both ids:
  the list of the node of \<open>s\<close> gets the forward edge (id \<open>id\<close>, target \<open>t\<close>) appended;
  when \<open>t\<close> is not \<open>s\<close>, the list of the node of \<open>t\<close> gets the reverse edge (id
  \<open>id-reverse\<close>, target \<open>s\<close>) appended, unless that list already holds an edge whose
  \<open>targetId\<close> is \<open>s\<close>, and then it stays as it is; the list of the node of every
  other id stays as it is. Hence, after any list of records, for each of them whose two
  endpoints are nodes of the forest, the node of id \<open>s\<close> holds the forward edge and the
  node of id \<open>t\<close> holds an edge that targets \<open>s\<close>.
\<close>

theorem link_creation_edges:
  "(fst (createLink linkId target lbl s) \<longrightarrow>
      (\<exists>src sourceNode.
           linkSourceId s = Some src \<and> src \<noteq> target
           \<and> findNodeById src (treeData s) = Some sourceNode
           \<and> findNodeById src (treeData (snd (createLink linkId target lbl s)))
               = Some (with_relationships sourceNode
                         (Some (arrayOf (relationships sourceNode)
                                @ [\<lparr>id_rel = linkId, targetId = target, label = lbl\<rparr>])))
           \<and> (\<forall>i. i \<noteq> src \<longrightarrow>
                 map_option relationships
                   (findNodeById i (treeData (snd (createLink linkId target lbl s))))
                 = map_option relationships (findNodeById i (treeData s)))))
   \<and> (mappedNode forest (end1Id rel) = Some sourceNode
        \<and> mappedNode forest (end2Id rel) = Some targetNode \<longrightarrow>
        map_option relationships (mappedNode (processRelationships forest [rel]) (end1Id rel))
          = Some (Some (arrayOf (relationships sourceNode) @ [forwardEdge rel]))
        \<and> (end1Id rel \<noteq> end2Id rel \<longrightarrow>
             map_option relationships
               (mappedNode (processRelationships forest [rel]) (end2Id rel))
             = Some (Some (if list_ex (\<lambda>r. targetId r = end1Id rel)
                                (arrayOf (relationships targetNode))
                           then arrayOf (relationships targetNode)
                           else arrayOf (relationships targetNode) @ [reverseEdge rel])))
        \<and> (\<forall>i. i \<noteq> end1Id rel \<and> i \<noteq> end2Id rel \<longrightarrow>
               map_option relationships (mappedNode (processRelationships forest [rel]) i)
               = map_option relationships (mappedNode forest i)))
   \<and> id_rel (forwardEdge rel) = id_xrel rel \<and> targetId (forwardEdge rel) = end2Id rel
   \<and> id_rel (reverseEdge rel) = id_xrel rel @ ''-reverse''
   \<and> targetId (reverseEdge rel) = end1Id rel
   \<and> processRelationships forest (rels @ [rel])
       = processRelationships (processRelationships forest rels) [rel]
   \<and> (rel \<in> set rels \<and> end1Id rel \<in> id_node ` set (nodesOf forest)
        \<and> end2Id rel \<in> id_node ` set (nodesOf forest) \<longrightarrow>
      (\<exists>src \<in> set (nodesOf (processRelationships forest rels)).
       \<exists>tgt \<in> set (nodesOf (processRelationships forest rels)).
           id_node src = end1Id rel \<and> id_node tgt = end2Id rel
           \<and> (\<exists>r \<in> set (arrayOf (relationships src)).
                 id_rel r = id_xrel rel \<and> targetId r = end2Id rel)
           \<and> (\<exists>r \<in> set (arrayOf (relationships tgt)). targetId r = end1Id rel)))"
proof -
  have created: "(fst (createLink linkId target lbl s) \<longrightarrow>
      (\<exists>src sourceNode.
           linkSourceId s = Some src \<and> src \<noteq> target
           \<and> findNodeById src (treeData s) = Some sourceNode
           \<and> findNodeById src (treeData (snd (createLink linkId target lbl s)))
               = Some (with_relationships sourceNode
                         (Some (arrayOf (relationships sourceNode)
                                @ [\<lparr>id_rel = linkId, targetId = target, label = lbl\<rparr>])))
           \<and> (\<forall>i. i \<noteq> src \<longrightarrow>
                 map_option relationships
                   (findNodeById i (treeData (snd (createLink linkId target lbl s))))
                 = map_option relationships (findNodeById i (treeData s)))))"
    using createLink_success [of linkId target lbl s] by blast
  have recorded: "mappedNode forest (end1Id rel) = Some sourceNode
        \<and> mappedNode forest (end2Id rel) = Some targetNode \<longrightarrow>
        map_option relationships (mappedNode (processRelationships forest [rel]) (end1Id rel))
          = Some (Some (arrayOf (relationships sourceNode) @ [forwardEdge rel]))
        \<and> (end1Id rel \<noteq> end2Id rel \<longrightarrow>
             map_option relationships
               (mappedNode (processRelationships forest [rel]) (end2Id rel))
             = Some (Some (if list_ex (\<lambda>r. targetId r = end1Id rel)
                                (arrayOf (relationships targetNode))
                           then arrayOf (relationships targetNode)
                           else arrayOf (relationships targetNode) @ [reverseEdge rel])))
        \<and> (\<forall>i. i \<noteq> end1Id rel \<and> i \<noteq> end2Id rel \<longrightarrow>
               map_option relationships (mappedNode (processRelationships forest [rel]) i)
               = map_option relationships (mappedNode forest i))"
    using processRelationships_record [of forest rel sourceNode targetNode] by blast
  have edges: "id_rel (forwardEdge rel) = id_xrel rel \<and> targetId (forwardEdge rel) = end2Id rel
     \<and> id_rel (reverseEdge rel) = id_xrel rel @ ''-reverse''
     \<and> targetId (reverseEdge rel) = end1Id rel"
    by (simp add: forwardEdge_def reverseEdge_def)
  have sequence: "processRelationships forest (rels @ [rel])
       = processRelationships (processRelationships forest rels) [rel]"
    by (rule processRelationships_append)
  have every: "rel \<in> set rels \<and> end1Id rel \<in> id_node ` set (nodesOf forest)
        \<and> end2Id rel \<in> id_node ` set (nodesOf forest) \<longrightarrow>
      (\<exists>src \<in> set (nodesOf (processRelationships forest rels)).
       \<exists>tgt \<in> set (nodesOf (processRelationships forest rels)).
           id_node src = end1Id rel \<and> id_node tgt = end2Id rel
           \<and> (\<exists>r \<in> set (arrayOf (relationships src)).
                 id_rel r = id_xrel rel \<and> targetId r = end2Id rel)
           \<and> (\<exists>r \<in> set (arrayOf (relationships tgt)). targetId r = end1Id rel))"
    using processRelationships_edges [of rel rels forest] by blast
  from created recorded edges sequence every show ?thesis by (intro conjI) simp_all
qed

lemma mappedNode_importedPair:
  "map_option relationships (mappedNode importedPair ''t1'') = Some None"
  "mappedNode importedPair ''t2''
     = Some (KPINode ''t2'' ''Breakdowns'' None None None None None None (Some False)
               None None None)"
  "mappedNode importedPair ''t3''
     = Some (KPINode ''t3'' ''Spares'' None None None None None None (Some True) None None
               (Some (0, 120)))"
  by (simp_all add: mappedNode_def importedPair_def buildNodeIdMap_def descendants_def
      enumerate_eq_zip upt_rec)

lemma mappedNode_linkedPair:
  "mappedNode (processRelationships importedPair [dependsOn]) ''t2''
     = Some (KPINode ''t2'' ''Breakdowns'' None None None None None None (Some False)
               (Some [\<lparr>id_rel = ''rel-1'', targetId = ''t3'', label = Some ''Depends on''\<rparr>])
               None None)"
  "mappedNode (processRelationships importedPair [dependsOn]) ''t3''
     = Some (KPINode ''t3'' ''Spares'' None None None None None None (Some True)
               (Some [\<lparr>id_rel = ''rel-1-reverse'', targetId = ''t2'',
                        label = Some (backArrow @ '' Depends on'')\<rparr>])
               None (Some (0, 120)))"
  by (simp_all add: processRelationships_importedPair mappedNode_def buildNodeIdMap_def
      descendants_def enumerate_eq_zip upt_rec)

theorem link_creation_edges_witness:
  "fst (createLink ''link-1'' ''b'' (Some ''Depends on'')
          (startLinkMode ''a'' ''Availability'' (initStore linkPair moduleState)))
   \<and> (\<exists>src sourceNode.
         linkSourceId (startLinkMode ''a'' ''Availability'' (initStore linkPair moduleState))
           = Some src \<and> src \<noteq> ''b''
         \<and> findNodeById src
              (treeData (startLinkMode ''a'' ''Availability'' (initStore linkPair moduleState)))
             = Some sourceNode
         \<and> findNodeById src
              (treeData (snd (createLink ''link-1'' ''b'' (Some ''Depends on'')
                 (startLinkMode ''a'' ''Availability'' (initStore linkPair moduleState)))))
             = Some (with_relationships sourceNode
                       (Some (arrayOf (relationships sourceNode)
                              @ [\<lparr>id_rel = ''link-1'', targetId = ''b'',
                                   label = Some ''Depends on''\<rparr>])))
         \<and> (\<forall>i. i \<noteq> src \<longrightarrow>
               map_option relationships
                 (findNodeById i
                    (treeData (snd (createLink ''link-1'' ''b'' (Some ''Depends on'')
                       (startLinkMode ''a'' ''Availability'' (initStore linkPair moduleState))))))
               = map_option relationships
                   (findNodeById i
                      (treeData (startLinkMode ''a'' ''Availability''
                                   (initStore linkPair moduleState))))))
   \<and> map_option relationships (mappedNode importedPair ''t2'') = Some None
   \<and> map_option relationships (mappedNode importedPair ''t3'') = Some None
   \<and> map_option relationships (mappedNode (processRelationships importedPair [dependsOn]) ''t2'')
       = Some (Some [\<lparr>id_rel = ''rel-1'', targetId = ''t3'', label = Some ''Depends on''\<rparr>])
   \<and> map_option relationships (mappedNode (processRelationships importedPair [dependsOn]) ''t3'')
       = Some (Some [\<lparr>id_rel = ''rel-1-reverse'', targetId = ''t2'',
                       label = Some (backArrow @ '' Depends on'')\<rparr>])
   \<and> map_option relationships (mappedNode (processRelationships importedPair [dependsOn]) ''t1'')
       = Some None
   \<and> map_option relationships
       (mappedNode (processRelationships importedPair [dependsOn, neededBy]) ''t3'')
       = Some (Some [\<lparr>id_rel = ''rel-1-reverse'', targetId = ''t2'',
                       label = Some (backArrow @ '' Depends on'')\<rparr>,
                     \<lparr>id_rel = ''rel-2'', targetId = ''t2'', label = Some ''Needed by''\<rparr>])
   \<and> map_option relationships
       (mappedNode (processRelationships importedPair [dependsOn, neededBy]) ''t2'')
       = Some (Some [\<lparr>id_rel = ''rel-1'', targetId = ''t3'', label = Some ''Depends on''\<rparr>])
   \<and> dependsOn \<in> set [dependsOn]
   \<and> end1Id dependsOn \<in> id_node ` set (nodesOf importedPair)
   \<and> end2Id dependsOn \<in> id_node ` set (nodesOf importedPair)
   \<and> (\<exists>src \<in> set (nodesOf (processRelationships importedPair [dependsOn])).
       \<exists>tgt \<in> set (nodesOf (processRelationships importedPair [dependsOn])).
         id_node src = end1Id dependsOn \<and> id_node tgt = end2Id dependsOn
         \<and> (\<exists>r \<in> set (arrayOf (relationships src)).
               id_rel r = id_xrel dependsOn \<and> targetId r = end2Id dependsOn)
         \<and> (\<exists>r \<in> set (arrayOf (relationships tgt)). targetId r = end1Id dependsOn))"
proof -
  let ?s = "startLinkMode ''a'' ''Availability'' (initStore linkPair moduleState)"
  let ?t2 = "KPINode ''t2'' ''Breakdowns'' None None None None None None (Some False)
               None None None"
  let ?t3 = "KPINode ''t3'' ''Spares'' None None None None None None (Some True) None None
               (Some (0, 120))"
  let ?t2' = "KPINode ''t2'' ''Breakdowns'' None None None None None None (Some False)
               (Some [\<lparr>id_rel = ''rel-1'', targetId = ''t3'', label = Some ''Depends on''\<rparr>])
               None None"
  let ?t3' = "KPINode ''t3'' ''Spares'' None None None None None None (Some True)
               (Some [\<lparr>id_rel = ''rel-1-reverse'', targetId = ''t2'',
                        label = Some (backArrow @ '' Depends on'')\<rparr>])
               None (Some (0, 120))"
  have created: "fst (createLink ''link-1'' ''b'' (Some ''Depends on'') ?s)"
    by (simp add: linkPair_def example_defs createLink_def startLinkMode_def cancelLinkMode_def)
  have found: "dependsOn \<in> set [dependsOn]
     \<and> end1Id dependsOn \<in> id_node ` set (nodesOf importedPair)
     \<and> end2Id dependsOn \<in> id_node ` set (nodesOf importedPair)"
    by (simp add: dependsOn_def importedPair_def)
  have ends: "end1Id dependsOn = ''t2''" "end2Id dependsOn = ''t3''"
    "end1Id neededBy = ''t3''" "end2Id neededBy = ''t2''"
    by (simp_all add: dependsOn_def neededBy_def)
  have first: "mappedNode importedPair (end1Id dependsOn) = Some ?t2
     \<and> mappedNode importedPair (end2Id dependsOn) = Some ?t3"
    by (simp add: ends mappedNode_importedPair)
  have second: "mappedNode (processRelationships importedPair [dependsOn]) (end1Id neededBy)
       = Some ?t3'
     \<and> mappedNode (processRelationships importedPair [dependsOn]) (end2Id neededBy)
       = Some ?t2'"
    by (simp add: ends mappedNode_linkedPair)
  note one = link_creation_edges
         [where linkId = "''link-1''" and target = "''b''" and lbl = "Some ''Depends on''"
            and s = ?s and rel = dependsOn and rels = "[dependsOn]" and forest = importedPair
            and sourceNode = ?t2 and targetNode = ?t3]
  note two = link_creation_edges
         [where linkId = "''link-1''" and target = "''b''" and lbl = "Some ''Depends on''"
            and s = ?s and rel = neededBy and rels = "[dependsOn]"
            and forest = "processRelationships importedPair [dependsOn]"
            and sourceNode = ?t3' and targetNode = ?t2']
  note three = link_creation_edges
         [where linkId = "''link-1''" and target = "''b''" and lbl = "Some ''Depends on''"
            and s = ?s and rel = neededBy and rels = "[dependsOn]" and forest = importedPair
            and sourceNode = ?t2 and targetNode = ?t2]
  from one created have link: "\<exists>src sourceNode.
         linkSourceId ?s = Some src \<and> src \<noteq> ''b''
         \<and> findNodeById src (treeData ?s) = Some sourceNode
         \<and> findNodeById src
              (treeData (snd (createLink ''link-1'' ''b'' (Some ''Depends on'') ?s)))
             = Some (with_relationships sourceNode
                       (Some (arrayOf (relationships sourceNode)
                              @ [\<lparr>id_rel = ''link-1'', targetId = ''b'',
                                   label = Some ''Depends on''\<rparr>])))
         \<and> (\<forall>i. i \<noteq> src \<longrightarrow>
               map_option relationships
                 (findNodeById i
                    (treeData (snd (createLink ''link-1'' ''b'' (Some ''Depends on'') ?s))))
               = map_option relationships (findNodeById i (treeData ?s)))"
    by blast
  from one found have every:
    "\<exists>src \<in> set (nodesOf (processRelationships importedPair [dependsOn])).
       \<exists>tgt \<in> set (nodesOf (processRelationships importedPair [dependsOn])).
         id_node src = end1Id dependsOn \<and> id_node tgt = end2Id dependsOn
         \<and> (\<exists>r \<in> set (arrayOf (relationships src)).
               id_rel r = id_xrel dependsOn \<and> targetId r = end2Id dependsOn)
         \<and> (\<exists>r \<in> set (arrayOf (relationships tgt)). targetId r = end1Id dependsOn)"
    by blast
  from one first have
    "map_option relationships
       (mappedNode (processRelationships importedPair [dependsOn]) (end1Id dependsOn))
       = Some (Some (arrayOf (relationships ?t2) @ [forwardEdge dependsOn]))"
    and "end1Id dependsOn \<noteq> end2Id dependsOn \<longrightarrow>
       map_option relationships
         (mappedNode (processRelationships importedPair [dependsOn]) (end2Id dependsOn))
       = Some (Some (if list_ex (\<lambda>r. targetId r = end1Id dependsOn)
                          (arrayOf (relationships ?t3))
                     then arrayOf (relationships ?t3)
                     else arrayOf (relationships ?t3) @ [reverseEdge dependsOn]))"
    and "\<forall>i. i \<noteq> end1Id dependsOn \<and> i \<noteq> end2Id dependsOn \<longrightarrow>
       map_option relationships (mappedNode (processRelationships importedPair [dependsOn]) i)
       = map_option relationships (mappedNode importedPair i)"
    by blast+
  note step = this
  from step(1,2) step(3) [rule_format, of "''t1''"] have once:
    "map_option relationships (mappedNode (processRelationships importedPair [dependsOn]) ''t2'')
       = Some (Some [\<lparr>id_rel = ''rel-1'', targetId = ''t3'', label = Some ''Depends on''\<rparr>])"
    "map_option relationships (mappedNode (processRelationships importedPair [dependsOn]) ''t3'')
       = Some (Some [\<lparr>id_rel = ''rel-1-reverse'', targetId = ''t2'',
                       label = Some (backArrow @ '' Depends on'')\<rparr>])"
    "map_option relationships (mappedNode (processRelationships importedPair [dependsOn]) ''t1'')
       = Some None"
    by (simp_all add: ends mappedNode_importedPair arrayOf_def
        forwardEdge_def reverseEdge_def relationshipLabel_def dependsOn_def)
  from three have seq: "processRelationships importedPair [dependsOn, neededBy]
       = processRelationships (processRelationships importedPair [dependsOn]) [neededBy]"
    by simp
  from two second have
    "map_option relationships
       (mappedNode (processRelationships (processRelationships importedPair [dependsOn])
          [neededBy]) (end1Id neededBy))
       = Some (Some (arrayOf (relationships ?t3') @ [forwardEdge neededBy]))"
    and "end1Id neededBy \<noteq> end2Id neededBy \<longrightarrow>
       map_option relationships
         (mappedNode (processRelationships (processRelationships importedPair [dependsOn])
            [neededBy]) (end2Id neededBy))
       = Some (Some (if list_ex (\<lambda>r. targetId r = end1Id neededBy)
                          (arrayOf (relationships ?t2'))
                     then arrayOf (relationships ?t2')
                     else arrayOf (relationships ?t2') @ [reverseEdge neededBy]))"
    by blast+
  then have twice:
    "map_option relationships
       (mappedNode (processRelationships importedPair [dependsOn, neededBy]) ''t3'')
       = Some (Some [\<lparr>id_rel = ''rel-1-reverse'', targetId = ''t2'',
                       label = Some (backArrow @ '' Depends on'')\<rparr>,
                     \<lparr>id_rel = ''rel-2'', targetId = ''t2'', label = Some ''Needed by''\<rparr>])"
    "map_option relationships
       (mappedNode (processRelationships importedPair [dependsOn, neededBy]) ''t2'')
       = Some (Some [\<lparr>id_rel = ''rel-1'', targetId = ''t3'', label = Some ''Depends on''\<rparr>])"
    unfolding seq
    by (simp_all add: ends arrayOf_def forwardEdge_def relationshipLabel_def neededBy_def)
  have before: "map_option relationships (mappedNode importedPair ''t2'') = Some None"
    "map_option relationships (mappedNode importedPair ''t3'') = Some None"
    by (simp_all add: mappedNode_importedPair)
  from created link before once twice found every show ?thesis
    by (intro conjI) (simp_all only:)
qed

end
